theory Spec2Isabelle
  imports Complex_Main "HOL-Library.Log_Nat"
begin

section \<open>Data model\<close>

text \<open>
  The values exchanged with the simulator (\<open>carla.Location\<close>, \<open>carla.Rotation\<close>,
  \<open>carla.Transform\<close>, \<open>carla.Vector3D\<close>, \<open>carla.VehicleControl\<close>, \<open>carla.Waypoint\<close>)
  are records of their fields. A field holds the real number that the float stands for.
  Where a result depends on rounding (the initial conditions and \<open>norm\<close>), the arithmetic
  is that of IEEE 754, defined below: Python floats are binary64, and the carla types
  store binary32. The rows of the dataset are differences of stored coordinates and are
  computed over the reals.
\<close>

record Location =
  loc_x :: real
  loc_y :: real
  loc_z :: real

record Rotation =
  pitch :: real
  yaw :: real
  roll :: real

record Transform =
  location :: Location
  rotation :: Rotation

record Vector3D =
  vec_x :: real
  vec_y :: real
  vec_z :: real

record VehicleControl =
  throttle :: real
  steer :: real
  brake :: real

record Waypoint =
  transform :: Transform
  lane_width :: real

section \<open>IEEE 754 arithmetic\<close>

text \<open>
  Rounding to the nearest integer, ties to the even one.
\<close>

definition rne :: "real \<Rightarrow> int" where
  "rne y =
     (let f = \<lfloor>y\<rfloor>; d = y - of_int f
      in if d < 1 / 2 then f else if 1 / 2 < d then f + 1 else if even f then f else f + 1)"

text \<open>
  The binary exponent of a number other than 0: \<open>2 powi expo x \<le> \<bar>x\<bar> < 2 powi (expo x + 1)\<close>,
  read off the bit length of an integer so that it can be computed.
\<close>

definition expo :: "real \<Rightarrow> int" where
  "expo x = (if 1 \<le> \<bar>x\<bar> then bitlen \<lfloor>\<bar>x\<bar>\<rfloor> - 1 else - bitlen (\<lceil>1 / \<bar>x\<bar>\<rceil> - 1))"

text \<open>
  Round to nearest, ties to even, in the binary format with \<open>p\<close> significant bits and
  least normal exponent \<open>emin\<close>: the number is scaled so that its last kept bit is the unit
  (below \<open>2 powi emin\<close> that is the fixed spacing of the subnormal numbers), rounded to an
  integer and scaled back. Nothing is cut off at the top of the format here.
\<close>

definition round_to :: "nat \<Rightarrow> int \<Rightarrow> real \<Rightarrow> real" where
  "round_to p emin x =
     (let q = 2 powi (max (expo x) emin - int p + 1)
      in of_int (rne (x / q)) * q)"

text \<open>
  The result of a Python float operation whose exact value is \<open>x\<close>, and the value that a
  carla object stores for the Python float \<open>x\<close>, both for results within the range of the
  format. The initial conditions stay within it: they are sums of a stored coordinate and
  a number of size at most 180.
\<close>

definition to_double :: "real \<Rightarrow> real" where
  "to_double x = round_to 53 (- 1022) x"

definition to_float32 :: "real \<Rightarrow> real" where
  "to_float32 x = round_to 24 (- 126) x"

text \<open>
  A Python float with its special values (\<open>Inf True\<close> is minus infinity); the two zeros
  are one value, which no result of \<open>norm\<close> tells apart. An operation rounds its exact
  result and overflows to an infinity beyond the largest double.
\<close>

datatype pyfloat =
  Finite real
  | Inf bool
  | NaN

definition max_double :: real where
  "max_double = (2 ^ 53 - 1) * 2 ^ 971"

definition double_of :: "real \<Rightarrow> pyfloat" where
  "double_of x =
     (let r = to_double x
      in if max_double < r then Inf False else if r < - max_double then Inf True else Finite r)"

fun fmul :: "pyfloat \<Rightarrow> pyfloat \<Rightarrow> pyfloat" where
  "fmul (Finite a) (Finite b) = double_of (a * b)"
| "fmul (Finite a) (Inf t) = (if a = 0 then NaN else Inf (t \<noteq> (a < 0)))"
| "fmul (Inf s) (Finite b) = (if b = 0 then NaN else Inf (s \<noteq> (b < 0)))"
| "fmul (Inf s) (Inf t) = Inf (s \<noteq> t)"
| "fmul NaN b = NaN"
| "fmul a NaN = NaN"

text \<open>Division by a divisor other than zero; Python raises before it divides by zero.\<close>

fun fdiv :: "pyfloat \<Rightarrow> pyfloat \<Rightarrow> pyfloat" where
  "fdiv (Finite a) (Finite b) = double_of (a / b)"
| "fdiv (Finite a) (Inf t) = Finite 0"
| "fdiv (Inf s) (Finite b) = Inf (s \<noteq> (b < 0))"
| "fdiv (Inf s) (Inf t) = NaN"
| "fdiv NaN b = NaN"
| "fdiv a NaN = NaN"

fun fadd :: "pyfloat \<Rightarrow> pyfloat \<Rightarrow> pyfloat" where
  "fadd (Finite a) (Finite b) = double_of (a + b)"
| "fadd (Finite a) (Inf t) = Inf t"
| "fadd (Inf s) (Finite b) = Inf s"
| "fadd (Inf s) (Inf t) = (if s = t then Inf s else NaN)"
| "fadd NaN b = NaN"
| "fadd a NaN = NaN"

text \<open>The comparison \<open>a < b\<close>, false when either side is NaN.\<close>

fun flt :: "pyfloat \<Rightarrow> pyfloat \<Rightarrow> bool" where
  "flt (Finite a) (Finite b) = (a < b)"
| "flt (Finite a) (Inf t) = (\<not> t)"
| "flt (Inf s) (Finite b) = s"
| "flt (Inf s) (Inf t) = (s \<and> \<not> t)"
| "flt NaN b = False"
| "flt a NaN = False"

text \<open>The values of the type that are Python floats: a finite one is a double.\<close>

fun is_pyfloat :: "pyfloat \<Rightarrow> bool" where
  "is_pyfloat (Finite v) = (to_double v = v \<and> \<bar>v\<bar> \<le> max_double)"
| "is_pyfloat (Inf s) = True"
| "is_pyfloat NaN = True"

text \<open>A Python number: an int, which has no bound, or a float.\<close>

datatype pynum =
  PyInt int
  | PyFloat pyfloat

text \<open>
  Exceptions are values. The two \<open>ValueError\<close>s of the module carry their diagnostic:
  the fixed text of \<open>generate_random_starting_pts\<close>, and the three numbers that
  \<open>norm\<close> formats into its message.
\<close>

datatype diagnostic =
  RadiusLtHalfLaneWidth
  | AbnormalNorm pynum pynum pyfloat

datatype error =
  ValueError diagnostic
  | IndexError
  | ZeroDivisionError
  | OverflowError

section \<open>The random module\<close>

text \<open>
  The generator is a script of its outputs: the \<open>k\<close>-th call of the module returns the
  \<open>k\<close>-th entry, and the generator's state is the number of calls made so far.
  \<open>random.random()\<close> reads \<open>random_at\<close>; \<open>random.choice\<close> reads \<open>randbelow_at\<close> and
  reduces it to an index of the sequence, raising \<open>IndexError\<close> on an empty sequence.
\<close>

record Random =
  random_at :: "nat \<Rightarrow> real"
  randbelow_at :: "nat \<Rightarrow> nat"

definition random :: "Random \<Rightarrow> nat \<Rightarrow> real \<times> nat" where
  "random R g = (random_at R g, Suc g)"

definition choice :: "Random \<Rightarrow> nat \<Rightarrow> 'a list \<Rightarrow> error + ('a \<times> nat)" where
  "choice R g xs =
     (if xs = [] then Inl IndexError
      else Inr (xs ! (randbelow_at R g mod length xs), Suc g))"

text \<open>What the documentation of \<open>random.random()\<close> promises: a value in \<open>[0, 1)\<close>.\<close>

definition unit_range :: "Random \<Rightarrow> bool" where
  "unit_range R \<longleftrightarrow> (\<forall>k. 0 \<le> random_at R k \<and> random_at R k < 1)"

section \<open>norm\<close>

text \<open>
  \<^verbatim>\<open>
  def norm(x, x_max):
      n = x/(x_max*2) + 0.5
      if n>0 and n< 1:
          return n
      else:
          raise ValueError("abnormal norm x {}, x_max {}, norm {}".format(x, x_max, n))
  \<close>
  The arguments are Python numbers; the callers pass a float for \<open>x\<close> and an int (30, 60)
  or a float (90.0) for \<open>x_max\<close>. The operators are those of Python 3, which agree with
  those of Python 2 unless both arguments are ints:
  \<^item> \<open>x_max*2\<close> is exact on an int and one rounded operation on a float;
  \<^item> \<open>/\<close> on two ints raises \<open>ZeroDivisionError\<close> for a zero divisor and otherwise gives
    the double nearest the quotient, or \<open>OverflowError\<close> beyond the largest double;
  \<^item> \<open>/\<close> with a float on either side first converts an int operand to the nearest
    double (\<open>OverflowError\<close> beyond the largest one), then raises \<open>ZeroDivisionError\<close> for a
    zero divisor, then divides as floats;
  \<^item> the quotient is a float, so \<open>+ 0.5\<close> and the two comparisons are those of floats;
    the comparisons are false for a NaN.
\<close>

definition int_to_float :: "int \<Rightarrow> error + pyfloat" where
  "int_to_float m =
     (let r = to_double (of_int m)
      in if max_double < \<bar>r\<bar> then Inl OverflowError else Inr (Finite r))"

fun times2 :: "pynum \<Rightarrow> pynum" where
  "times2 (PyInt m) = PyInt (m * 2)"
| "times2 (PyFloat f) = PyFloat (fmul f (Finite 2))"

fun true_div :: "pynum \<Rightarrow> pynum \<Rightarrow> error + pyfloat" where
  "true_div (PyInt a) (PyInt b) =
     (if b = 0 then Inl ZeroDivisionError
      else (let r = to_double (of_int a / of_int b)
            in if max_double < \<bar>r\<bar> then Inl OverflowError else Inr (Finite r)))"
| "true_div (PyFloat f) (PyInt b) =
     (case int_to_float b of
        Inl e \<Rightarrow> Inl e
      | Inr g \<Rightarrow> if g = Finite 0 then Inl ZeroDivisionError else Inr (fdiv f g))"
| "true_div (PyInt a) (PyFloat g) =
     (case int_to_float a of
        Inl e \<Rightarrow> Inl e
      | Inr f \<Rightarrow> if g = Finite 0 then Inl ZeroDivisionError else Inr (fdiv f g))"
| "true_div (PyFloat f) (PyFloat g) =
     (if g = Finite 0 then Inl ZeroDivisionError else Inr (fdiv f g))"

definition norm_py :: "pynum \<Rightarrow> pynum \<Rightarrow> error + pyfloat" where
  "norm_py x x_max =
     (case true_div x (times2 x_max) of
        Inl e \<Rightarrow> Inl e
      | Inr q \<Rightarrow>
          (let n = fadd q (Finite 0.5)
           in if flt (Finite 0) n \<and> flt n (Finite 1) then Inr n
              else Inl (ValueError (AbnormalNorm x x_max n))))"

text \<open>The arguments that are numbers of Python, and those that are zero.\<close>

fun is_pynum :: "pynum \<Rightarrow> bool" where
  "is_pynum (PyInt m) = True"
| "is_pynum (PyFloat f) = is_pyfloat f"

fun is_zero :: "pynum \<Rightarrow> bool" where
  "is_zero (PyInt m) = (m = 0)"
| "is_zero (PyFloat f) = (f = Finite 0)"

fun is_int :: "pynum \<Rightarrow> bool" where
  "is_int (PyInt m) = True"
| "is_int (PyFloat f) = False"

section \<open>Initial conditions\<close>

text \<open>
  \<open>generate_random_starting_pts(wp, num)\<close>: the local constant \<open>radius = 1.8\<close>, the guard
  on the lane width, and the loop that draws \<open>x\<close>, \<open>y\<close> and \<open>yaw\<close> in this order.
  The literal \<open>1.8\<close> is the double nearest to it. Each of \<open>2*random.random()\<close>, \<open>-1.0\<close>,
  \<open>radius*\<close>, \<open>center.x +\<close> and \<open>180*\<close> is one rounded operation on doubles, and
  \<open>carla.Location\<close> and \<open>carla.Rotation\<close> store what they are given as binary32.
  \<open>carla.Rotation(yaw=yaw)\<close> leaves pitch and roll at their default 0.
\<close>

definition radius :: real where
  "radius = to_double 1.8"

fun starting_pts_loop ::
  "Random \<Rightarrow> Location \<Rightarrow> nat \<Rightarrow> nat \<Rightarrow> Transform list \<Rightarrow> Transform list \<times> nat" where
  "starting_pts_loop R center 0 g x0s = (x0s, g)"
| "starting_pts_loop R center (Suc n) g x0s =
     (let (u1, g1) = random R g;
          x = to_double (loc_x center + to_double (radius * to_double (to_double (2 * u1) - 1.0)));
          (u2, g2) = random R g1;
          y = to_double (loc_y center + to_double (radius * to_double (to_double (2 * u2) - 1.0)));
          z = loc_z center;
          (u3, g3) = random R g2;
          yaw' = to_double (180 * to_double (to_double (2 * u3) - 1.0))
      in starting_pts_loop R center n g3
           (x0s @ [\<lparr>location = \<lparr>loc_x = to_float32 x, loc_y = to_float32 y,
                                  loc_z = to_float32 z\<rparr>,
                    rotation = \<lparr>pitch = 0, yaw = to_float32 yaw', roll = 0\<rparr>\<rparr>]))"

definition generate_random_starting_pts ::
  "Random \<Rightarrow> Waypoint \<Rightarrow> nat \<Rightarrow> nat \<Rightarrow> error + (Transform list \<times> nat)" where
  "generate_random_starting_pts R wp num g =
     (let center = location (transform wp)
      in if radius < lane_width wp / 2.0 then Inl (ValueError RadiusLtHalfLaneWidth)
         else Inr (starting_pts_loop R center num g []))"

definition generate_random_velocity :: "Random \<Rightarrow> real \<Rightarrow> nat \<Rightarrow> Vector3D \<times> nat" where
  "generate_random_velocity R max_vel g =
     (let (u1, g1) = random R g;
          (u2, g2) = random R g1
      in (\<lparr>vec_x = to_float32 (to_double (max_vel * to_double (to_double (2 * u1) - 1.0))),
           vec_y = to_float32 (to_double (max_vel * to_double (to_double (2 * u2) - 1.0))),
           vec_z = 0\<rparr>, g2))"

text \<open>Planar (x, y) distance between two locations.\<close>

definition planar_distance :: "Location \<Rightarrow> Location \<Rightarrow> real" where
  "planar_distance a b = sqrt ((loc_x a - loc_x b)\<^sup>2 + (loc_y a - loc_y b)\<^sup>2)"

section \<open>The collaborators of the game loop\<close>

text \<open>
  The simulator, the HUD, the keyboard controller and the map are outside the module.
  They are an interface over a state \<open>'w\<close> that stands for everything they own:
  \<^item> \<open>parse_events\<close> is \<open>controller.parse_events(world, clock)\<close>, true on a quit event;
  \<^item> \<open>world_tick\<close> is \<open>world.tick(clock)\<close>, false when the ego vehicle is no longer among
    the actors;
  \<^item> \<open>wait_for_tick\<close> is \<open>world.world.wait_for_tick()\<close>;
  \<^item> \<open>frame_number\<close> is \<open>hud.frame_number\<close>, which the HUD's tick callback sets;
  \<^item> \<open>get_transform\<close>, \<open>get_velocity\<close>, \<open>get_control\<close>, \<open>set_transform\<close>,
    \<open>set_velocity\<close> are the methods of \<open>world.vehicle\<close>;
  \<^item> \<open>render\<close> is the end of an iteration: \<open>world.render\<close>, \<open>pygame.display.flip\<close>,
    \<open>clock.tick_busy_loop\<close>;
  \<^item> \<open>get_waypoint\<close> is \<open>map.get_waypoint\<close> and \<open>wp_next w d\<close> is \<open>w.next(d)\<close>.
\<close>

record 'w Sim =
  parse_events :: "'w \<Rightarrow> bool \<times> 'w"
  world_tick :: "'w \<Rightarrow> bool \<times> 'w"
  wait_for_tick :: "'w \<Rightarrow> 'w"
  frame_number :: "'w \<Rightarrow> int"
  get_transform :: "'w \<Rightarrow> Transform"
  get_velocity :: "'w \<Rightarrow> Vector3D"
  get_control :: "'w \<Rightarrow> VehicleControl"
  set_transform :: "Transform \<Rightarrow> 'w \<Rightarrow> 'w"
  set_velocity :: "Vector3D \<Rightarrow> 'w \<Rightarrow> 'w"
  render :: "'w \<Rightarrow> 'w"
  get_waypoint :: "Location \<Rightarrow> Waypoint"
  wp_next :: "Waypoint \<Rightarrow> real \<Rightarrow> Waypoint list"

text \<open>
  What \<open>game_loop\<close> changes: the collaborators' state, the generator, the rows of
  \<open>long_states_2.csv\<close> in the order they were written (the file is opened in append mode
  for each row, so earlier rows stay), and the list \<open>wps\<close> of reference waypoints.
\<close>

record 'w State =
  world :: 'w
  rng :: nat
  outfile :: "real list list"
  wps :: "Waypoint list"

text \<open>
  How a loop body or the whole loop ends: normally, by one of the two \<open>return\<close>
  statements (after printing \<open>Escape\<close> or \<open>No ego vehicle\<close>), or by an exception.
  An exception carries the state in which the statement that raised it was entered; the
  file in it is what is left on disk.
\<close>

datatype 'w outcome =
  Normal "'w State"
  | Escape "'w State"
  | NoVehicle "'w State"
  | Raised error "'w State"

fun final_state :: "'w outcome \<Rightarrow> 'w State" where
  "final_state (Normal st) = st"
| "final_state (Escape st) = st"
| "final_state (NoVehicle st) = st"
| "final_state (Raised e st) = st"

subsection \<open>The constants of game_loop\<close>

definition num_wp :: nat where
  "num_wp = 500"

definition num_init_pt :: nat where
  "num_init_pt = 200"

definition horizon :: nat where
  "horizon = 50"

definition start_loc :: Location where
  "start_loc = \<lparr>loc_x = 405.405, loc_y = - 59.49, loc_z = 0.0\<rparr>"

definition sampling_radius :: real where
  "sampling_radius = 2.0"

text \<open>The literal 400 of the \<open>while\<close> condition, commented \<open>20s\<close> in the source.\<close>

definition frame_budget :: int where
  "frame_budget = 400"

section \<open>One transition\<close>

definition transform_to_arr :: "Transform \<Rightarrow> real list" where
  "transform_to_arr tf =
     [loc_x (location tf), loc_y (location tf), loc_z (location tf),
      pitch (rotation tf), yaw (rotation tf), roll (rotation tf)]"

text \<open>
  \<open>future_wps\<close> starts as \<open>[cur_wp]\<close> and grows by one random successor of its last
  element per step of \<open>for j in range(horizon)\<close>.
\<close>

fun future_wps_loop ::
  "'w Sim \<Rightarrow> Random \<Rightarrow> nat \<Rightarrow> Waypoint list \<Rightarrow> nat \<Rightarrow> error + (Waypoint list \<times> nat)" where
  "future_wps_loop S R 0 future_wps g = Inr (future_wps, g)"
| "future_wps_loop S R (Suc j) future_wps g =
     (if future_wps = [] then Inl IndexError
      else (case choice R g (wp_next S (last future_wps) sampling_radius) of
              Inl e \<Rightarrow> Inl e
            | Inr (wp, g') \<Rightarrow> future_wps_loop S R j (future_wps @ [wp]) g'))"

text \<open>
  \<open>future_wps_np\<close>: one \<open>[x, y]\<close> pair per waypoint, then the pair of \<open>cur_wp\<close>
  subtracted from every line (numpy broadcasting), then \<open>flatten()\<close>.
\<close>

definition future_wps_np :: "Waypoint list \<Rightarrow> Waypoint \<Rightarrow> real list list" where
  "future_wps_np future_wps cur_wp =
     map (\<lambda>p. [p ! 0 - loc_x (location (transform cur_wp)),
                p ! 1 - loc_y (location (transform cur_wp))])
       (map (\<lambda>future_wp. [loc_x (location (transform future_wp)),
                           loc_y (location (transform future_wp))]) future_wps)"

definition flatten :: "real list list \<Rightarrow> real list" where
  "flatten a = concat a"

text \<open>The \<open>np.hstack\<close> of the eight pieces of a row, in the order of the source.\<close>

definition transition_row ::
  "VehicleControl \<Rightarrow> Transform \<Rightarrow> Vector3D \<Rightarrow> Transform \<Rightarrow> Vector3D \<Rightarrow>
   Waypoint \<Rightarrow> Waypoint list \<Rightarrow> real list" where
  "transition_row control cur_loc cur_vel next_loc next_vel cur_wp future_wps =
     [throttle control, steer control, brake control]
     @ transform_to_arr cur_loc
     @ [vec_x cur_vel, vec_y cur_vel, vec_z cur_vel]
     @ transform_to_arr next_loc
     @ [vec_x next_vel, vec_y next_vel, vec_z next_vel]
     @ [loc_x (location cur_loc) - loc_x (location (transform cur_wp)),
        loc_y (location cur_loc) - loc_y (location (transform cur_wp))]
     @ flatten (future_wps_np future_wps cur_wp)
     @ [loc_x (location next_loc) - loc_x (location (transform cur_wp)),
        loc_y (location next_loc) - loc_y (location (transform cur_wp))]"

text \<open>\<open>writer.writerow(row)\<close> on the file opened with \<open>'a+'\<close>: one more row at the end.\<close>

definition writerow :: "real list list \<Rightarrow> real list \<Rightarrow> real list list" where
  "writerow file row = file @ [row]"

text \<open>
  The bytes of the file: \<open>csv.writer\<close> writes the fields of a row in order, each as the
  text of its float (\<open>fmt\<close>), with commas between them and CR LF after the last.
\<close>

fun join_fields :: "string list \<Rightarrow> string" where
  "join_fields [] = []"
| "join_fields [f] = f"
| "join_fields (f # g # fs) = f @ '','' @ join_fields (g # fs)"

definition csv_line :: "(real \<Rightarrow> string) \<Rightarrow> real list \<Rightarrow> string" where
  "csv_line fmt row = join_fields (map fmt row) @ [CHR 0x0D, CHR 0x0A]"

definition csv_text :: "(real \<Rightarrow> string) \<Rightarrow> real list list \<Rightarrow> string" where
  "csv_text fmt file = concat (map (csv_line fmt) file)"

text \<open>
  The body of the \<open>while\<close> loop: the quit check, the actor check, the tick before the
  pre-state is read, the lookahead, the tick before the post-state is read, the row.
\<close>

definition tick_body :: "'w Sim \<Rightarrow> Random \<Rightarrow> nat \<Rightarrow> 'w State \<Rightarrow> 'w outcome" where
  "tick_body S R hz st =
     (let (quit, w1) = parse_events S (world st)
      in if quit then Escape (st\<lparr>world := w1\<rparr>)
         else (let (alive, w2) = world_tick S w1
               in if \<not> alive then NoVehicle (st\<lparr>world := w2\<rparr>)
                  else (let w3 = wait_for_tick S w2;
                            cur_loc = get_transform S w3;
                            cur_vel = get_velocity S w3;
                            control = get_control S w3;
                            cur_wp = get_waypoint S (location cur_loc)
                        in case future_wps_loop S R hz [cur_wp] (rng st) of
                             Inl e \<Rightarrow> Raised e (st\<lparr>world := w3\<rparr>)
                           | Inr (future_wps, g') \<Rightarrow>
                               (let w4 = wait_for_tick S w3;
                                    next_loc = get_transform S w4;
                                    next_vel = get_velocity S w4;
                                    row = transition_row control cur_loc cur_vel
                                            next_loc next_vel cur_wp future_wps
                                in Normal (st\<lparr>world := render S w4, rng := g',
                                              outfile := writerow (outfile st) row\<rparr>)))))"

text \<open>
  The collaborators' state when the pre-state and the post-state of an iteration are
  read, for an iteration that reaches these points.
\<close>

definition pre_world :: "'w Sim \<Rightarrow> 'w \<Rightarrow> 'w" where
  "pre_world S w = wait_for_tick S (snd (world_tick S (snd (parse_events S w))))"

definition post_world :: "'w Sim \<Rightarrow> 'w \<Rightarrow> 'w" where
  "post_world S w = wait_for_tick S (pre_world S w)"

section \<open>Episodes and the game loop\<close>

text \<open>
  \<open>while hud.frame_number-init_frame_number<400\<close>: nothing in the module bounds the
  number of iterations (the frame number is the collaborators'), so the loop takes fuel
  and \<open>None\<close> means that it is still running when the fuel is spent.
\<close>

fun stepping ::
  "'w Sim \<Rightarrow> Random \<Rightarrow> nat \<Rightarrow> int \<Rightarrow> nat \<Rightarrow> int \<Rightarrow> 'w State \<Rightarrow> 'w outcome option" where
  "stepping S R hz budget 0 init_frame_number st = None"
| "stepping S R hz budget (Suc fuel) init_frame_number st =
     (if frame_number S (world st) - init_frame_number < budget
      then (case tick_body S R hz st of
              Normal st' \<Rightarrow> stepping S R hz budget fuel init_frame_number st'
            | out \<Rightarrow> Some out)
      else Some (Normal st))"

text \<open>The body of \<open>for x0 in x0s\<close>: install the initial condition, wait one tick, step.\<close>

definition run_episode ::
  "'w Sim \<Rightarrow> Random \<Rightarrow> nat \<Rightarrow> int \<Rightarrow> nat \<Rightarrow> Transform \<Rightarrow> 'w State \<Rightarrow> 'w outcome option" where
  "run_episode S R hz budget fuel x0 st =
     (let w1 = set_transform S x0 (world st);
          (init_vel, g1) = generate_random_velocity R 30 (rng st);
          w2 = set_velocity S init_vel w1;
          w3 = wait_for_tick S w2;
          init_frame_number = frame_number S w3
      in stepping S R hz budget fuel init_frame_number (st\<lparr>world := w3, rng := g1\<rparr>))"

fun episodes ::
  "'w Sim \<Rightarrow> Random \<Rightarrow> nat \<Rightarrow> int \<Rightarrow> nat \<Rightarrow> Transform list \<Rightarrow> 'w State \<Rightarrow> 'w outcome option" where
  "episodes S R hz budget fuel [] st = Some (Normal st)"
| "episodes S R hz budget fuel (x0 # x0s) st =
     (case run_episode S R hz budget fuel x0 st of
        Some (Normal st') \<Rightarrow> episodes S R hz budget fuel x0s st'
      | other \<Rightarrow> other)"

text \<open>
  \<open>for i in range(num_wp)\<close>, from iteration \<open>i\<close> with \<open>n\<close> iterations left: extend the
  reference path from \<open>wps[i]\<close>, generate the starting points around the new waypoint,
  run their episodes.
\<close>

fun path_loop ::
  "'w Sim \<Rightarrow> Random \<Rightarrow> nat \<Rightarrow> int \<Rightarrow> nat \<Rightarrow> nat \<Rightarrow> nat \<Rightarrow> nat \<Rightarrow> 'w State \<Rightarrow>
   'w outcome option" where
  "path_loop S R hz budget fuel num 0 i st = Some (Normal st)"
| "path_loop S R hz budget fuel num (Suc n) i st =
     (if length (wps st) \<le> i then Some (Raised IndexError st)
      else (case choice R (rng st) (wp_next S (wps st ! i) sampling_radius) of
              Inl e \<Rightarrow> Some (Raised e st)
            | Inr (wp, g1) \<Rightarrow>
                (let st1 = st\<lparr>rng := g1, wps := wps st @ [wp]\<rparr>
                 in case generate_random_starting_pts R wp num g1 of
                      Inl e \<Rightarrow> Some (Raised e st1)
                    | Inr (x0s, g2) \<Rightarrow>
                        (case episodes S R hz budget fuel x0s (st1\<lparr>rng := g2\<rparr>) of
                           Some (Normal st2) \<Rightarrow> path_loop S R hz budget fuel num n (Suc i) st2
                         | other \<Rightarrow> other))))"

text \<open>
  \<open>game_loop\<close> from the point where the collaborators exist: \<open>w0\<close> is their state,
  \<open>g0\<close> the generator's, \<open>file0\<close> the rows already in the file.
\<close>

definition game_loop ::
  "'w Sim \<Rightarrow> Random \<Rightarrow> nat \<Rightarrow> 'w \<Rightarrow> nat \<Rightarrow> real list list \<Rightarrow> 'w outcome option" where
  "game_loop S R fuel w0 g0 file0 =
     (let org_wp = get_waypoint S start_loc
      in path_loop S R horizon frame_budget fuel num_init_pt num_wp 0
           \<lparr>world = w0, rng = g0, outfile = file0, wps = [org_wp]\<rparr>)"

section \<open>Concrete collaborators\<close>

text \<open>
  A straight road along the x axis with lanes 3.5 wide: the waypoint nearest a location
  is its projection on the axis, and the only successor of a waypoint at distance \<open>d\<close>
  lies \<open>d\<close> further. The collaborators' state is the frame number; every
  \<open>wait_for_tick\<close> advances it by one, nobody quits and the vehicle stays, moving one
  unit per frame at a quarter of a unit off the axis.
\<close>

definition road_wp :: "real \<Rightarrow> real \<Rightarrow> Waypoint" where
  "road_wp w s =
     \<lparr>transform = \<lparr>location = \<lparr>loc_x = s, loc_y = 0, loc_z = 0\<rparr>,
                   rotation = \<lparr>pitch = 0, yaw = 0, roll = 0\<rparr>\<rparr>,
      lane_width = w\<rparr>"

definition vehicle_at :: "int \<Rightarrow> Transform" where
  "vehicle_at f =
     \<lparr>location = \<lparr>loc_x = of_int f, loc_y = 0.25, loc_z = 0\<rparr>,
      rotation = \<lparr>pitch = 0, yaw = 0, roll = 0\<rparr>\<rparr>"

definition straight_road :: "int Sim" where
  "straight_road =
     \<lparr>parse_events = (\<lambda>w. (False, w)),
      world_tick = (\<lambda>w. (True, w)),
      wait_for_tick = (\<lambda>w. w + 1),
      frame_number = (\<lambda>w. w),
      get_transform = vehicle_at,
      get_velocity = (\<lambda>w. \<lparr>vec_x = 1, vec_y = 0, vec_z = 0\<rparr>),
      get_control = (\<lambda>w. \<lparr>throttle = 0.5, steer = 0, brake = 0\<rparr>),
      set_transform = (\<lambda>tf w. w),
      set_velocity = (\<lambda>v w. w),
      render = (\<lambda>w. w),
      get_waypoint = (\<lambda>l. road_wp 3.5 (loc_x l)),
      wp_next = (\<lambda>wp d. [road_wp 3.5 (loc_x (location (transform wp)) + d)])\<rparr>"

text \<open>The same road, on which no waypoint has a successor.\<close>

definition dead_end :: "int Sim" where
  "dead_end = straight_road\<lparr>wp_next := (\<lambda>wp d. [])\<rparr>"

text \<open>The same road, with a quit event pending.\<close>

definition quitting :: "int Sim" where
  "quitting = straight_road\<lparr>parse_events := (\<lambda>w. (True, w))\<rparr>"

text \<open>A generator that always returns 0, and one that always returns one half.\<close>

definition zero_draws :: Random where
  "zero_draws = \<lparr>random_at = (\<lambda>k. 0), randbelow_at = (\<lambda>k. 0)\<rparr>"

definition half_draws :: Random where
  "half_draws = \<lparr>random_at = (\<lambda>k. 1 / 2), randbelow_at = (\<lambda>k. 0)\<rparr>"

definition fresh :: "int State" where
  "fresh = \<lparr>world = 0, rng = 0, outfile = [], wps = [road_wp 3.5 0]\<rparr>"

text \<open>
  The starting point drawn around the origin when every draw returns 0: its coordinates
  are the binary32 nearest to minus the radius.
\<close>

definition corner_pt :: Transform where
  "corner_pt =
     \<lparr>location = \<lparr>loc_x = - (7549747 / 2 ^ 22), loc_y = - (7549747 / 2 ^ 22), loc_z = 0\<rparr>,
      rotation = \<lparr>pitch = 0, yaw = - 180, roll = 0\<rparr>\<rparr>"

text \<open>
  A generator whose third draw is the double \<open>1 - 2^-30\<close> and whose other draws are 0,
  and the starting point drawn from it around the origin.
\<close>

definition late_yaw_draws :: Random where
  "late_yaw_draws =
     \<lparr>random_at = (\<lambda>k. if k = 2 then 1 - 1 / 2 ^ 30 else 0), randbelow_at = (\<lambda>k. 0)\<rparr>"

definition turned_pt :: Transform where
  "turned_pt =
     \<lparr>location = \<lparr>loc_x = - (7549747 / 2 ^ 22), loc_y = - (7549747 / 2 ^ 22), loc_z = 0\<rparr>,
      rotation = \<lparr>pitch = 0, yaw = 180, roll = 0\<rparr>\<rparr>"

section \<open>Conditions on the collaborators\<close>

text \<open>
  The frame discipline of a tick-synchronised world: the HUD's frame number moves only
  in \<open>wait_for_tick\<close>, by at least one frame per call, or by exactly one.
\<close>

definition frames_kept :: "'w Sim \<Rightarrow> bool" where
  "frames_kept S \<longleftrightarrow>
     (\<forall>w. frame_number S (snd (parse_events S w)) = frame_number S w)
     \<and> (\<forall>w. frame_number S (snd (world_tick S w)) = frame_number S w)
     \<and> (\<forall>w. frame_number S (render S w) = frame_number S w)"

definition wait_advances :: "'w Sim \<Rightarrow> bool" where
  "wait_advances S \<longleftrightarrow>
     frames_kept S \<and> (\<forall>w. frame_number S w + 1 \<le> frame_number S (wait_for_tick S w))"

definition one_frame_per_wait :: "'w Sim \<Rightarrow> bool" where
  "one_frame_per_wait S \<longleftrightarrow>
     frames_kept S \<and> (\<forall>w. frame_number S (wait_for_tick S w) = frame_number S w + 1)"

text \<open>No quit event, no actor loss, and a successor for every waypoint.\<close>

definition uninterrupted :: "'w Sim \<Rightarrow> bool" where
  "uninterrupted S \<longleftrightarrow>
     (\<forall>w. \<not> fst (parse_events S w)) \<and> (\<forall>w. fst (world_tick S w))
     \<and> (\<forall>wp. wp_next S wp sampling_radius \<noteq> [])"

text \<open>Every successor waypoint passes the lane-width guard of the starting points.\<close>

definition lanes_pass :: "'w Sim \<Rightarrow> bool" where
  "lanes_pass S \<longleftrightarrow>
     (\<forall>wp. \<forall>wp' \<in> set (wp_next S wp sampling_radius). \<not> radius < lane_width wp' / 2)"

text \<open>How an outcome is told apart, and the number of rows in its file.\<close>

fun completed :: "'w outcome \<Rightarrow> bool" where
  "completed (Normal st) = True"
| "completed (Escape st) = False"
| "completed (NoVehicle st) = False"
| "completed (Raised e st) = False"

fun interrupted :: "'w outcome \<Rightarrow> bool" where
  "interrupted (Normal st) = False"
| "interrupted (Escape st) = True"
| "interrupted (NoVehicle st) = True"
| "interrupted (Raised e st) = False"

definition rows_of :: "'w outcome \<Rightarrow> nat" where
  "rows_of out = length (outfile (final_state out))"

text \<open>
  The waypoint nearest the pre-state location of an iteration, and the poses read before
  and after its second tick.
\<close>

definition pre_pose :: "'w Sim \<Rightarrow> 'w State \<Rightarrow> Transform" where
  "pre_pose S st = get_transform S (pre_world S (world st))"

definition post_pose :: "'w Sim \<Rightarrow> 'w State \<Rightarrow> Transform" where
  "post_pose S st = get_transform S (post_world S (world st))"

definition pre_wp :: "'w Sim \<Rightarrow> 'w State \<Rightarrow> Waypoint" where
  "pre_wp S st = get_waypoint S (location (pre_pose S st))"

text \<open>
  A row of the width that lookahead horizon \<open>hz\<close> gives, whose lookahead window starts
  with the pair \<open>(0, 0)\<close>.
\<close>

definition window_row :: "nat \<Rightarrow> real list \<Rightarrow> bool" where
  "window_row hz row \<longleftrightarrow>
     length row = 3 + 6 + 3 + 6 + 3 + 2 + 2 * (hz + 1) + 2 \<and> row ! 23 = 0 \<and> row ! 24 = 0"

text \<open>
  The first iteration on the straight road with lookahead horizon 1, from \<open>fresh\<close>:
  the pre-state is read at frame 1 and the post-state at frame 2.
\<close>

definition first_row :: "real list" where
  "first_row =
     [0.5, 0, 0, 1, 0.25, 0, 0, 0, 0, 1, 0, 0, 2, 0.25, 0, 0, 0, 0, 1, 0, 0,
      0, 0.25, 0, 0, 2, 0, 1, 0.25]"

definition after_first_tick :: "int State" where
  "after_first_tick = \<lparr>world = 2, rng = 1, outfile = [first_row], wps = [road_wp 3.5 0]\<rparr>"

section \<open>Properties of the rounding\<close>

lemma rne_of_int [simp]: "rne (of_int n) = n"
  by (simp add: rne_def)

lemma rne_cases: "rne y = \<lfloor>y\<rfloor> \<or> rne y = \<lfloor>y\<rfloor> + 1"
  by (simp add: rne_def Let_def)

lemma rne_mono:
  assumes "x \<le> y"
  shows "rne x \<le> rne y"
proof (cases "\<lfloor>x\<rfloor> = \<lfloor>y\<rfloor>")
  case False
  with floor_mono [OF assms] have "\<lfloor>x\<rfloor> < \<lfloor>y\<rfloor>" by linarith
  with rne_cases [of x] rne_cases [of y] show ?thesis by auto
next
  case True
  with assms have "x - of_int \<lfloor>x\<rfloor> \<le> y - of_int \<lfloor>y\<rfloor>" by simp
  with True show ?thesis by (auto simp: rne_def Let_def)
qed

lemma rne_minus: "rne (- y) = - rne y"
proof (cases "y = of_int \<lfloor>y\<rfloor>")
  case True
  then obtain n where "y = of_int n" ..
  then have "- y = of_int (- n)" by simp
  then have "rne (- y) = - n" by (simp only: rne_of_int)
  with \<open>y = of_int n\<close> show ?thesis by simp
next
  case False
  then have f: "\<lfloor>- y\<rfloor> = - \<lfloor>y\<rfloor> - 1"
    by (metis ceiling_altdef ceiling_def add_diff_cancel_right' minus_diff_eq uminus_add_conv_diff)
  have "0 \<le> y - of_int \<lfloor>y\<rfloor>" by linarith
  with False have "0 < y - of_int \<lfloor>y\<rfloor>" by linarith
  with f show ?thesis by (auto simp: rne_def Let_def)
qed


lemma rne_0 [simp]: "rne 0 = 0"
  using rne_of_int [of 0] by simp

lemma rne_nonneg: "0 \<le> y \<Longrightarrow> 0 \<le> rne y"
  using rne_mono [of 0 y] by simp

lemma pow2_less_iff [simp]: "(2::real) powi a < 2 powi b \<longleftrightarrow> a < b"
proof
  assume l: "(2::real) powi a < 2 powi b"
  show "a < b"
  proof (rule ccontr)
    assume "\<not> a < b"
    then have "b \<le> a" by simp
    then have "(2::real) powi b \<le> 2 powi a" by (intro power_int_increasing) simp_all
    with l show False by simp
  qed
next
  assume "a < b"
  then show "(2::real) powi a < 2 powi b" by (intro power_int_strict_increasing) simp_all
qed

lemma pow2_le_iff [simp]: "(2::real) powi a \<le> 2 powi b \<longleftrightarrow> a \<le> b"
  using pow2_less_iff [of b a] by (simp only: not_less [symmetric])

lemma pow2_pos [simp]: "0 < (2::real) powi a"
  by simp

lemma pow2_add: "(2::real) powi (a + b) = 2 powi a * 2 powi b"
  by (simp add: power_int_add)

lemma expo_bounds:
  assumes "x \<noteq> 0"
  shows "2 powi expo x \<le> \<bar>x\<bar> \<and> \<bar>x\<bar> < 2 powi (expo x + 1)"
proof (cases "1 \<le> \<bar>x\<bar>")
  case True
  let ?n = "\<lfloor>\<bar>x\<bar>\<rfloor>"
  from True have n: "0 < ?n" by linarith
  from bitlen_bounds [OF n] have lo: "2 ^ nat (bitlen ?n - 1) \<le> ?n" and hi: "?n < 2 ^ nat (bitlen ?n)"
    by simp_all
  from n have b: "1 \<le> bitlen ?n" by (simp add: bitlen_alt_def)
  from lo have "(2::real) ^ nat (bitlen ?n - 1) \<le> of_int ?n"
    by (metis of_int_le_iff of_int_numeral of_int_power)
  also have "\<dots> \<le> \<bar>x\<bar>" by linarith
  finally have 1: "2 powi (bitlen ?n - 1) \<le> \<bar>x\<bar>"
    using b by (simp add: power_int_def)
  from hi have "?n + 1 \<le> 2 ^ nat (bitlen ?n)" by simp
  then have "of_int (?n + 1) \<le> (2::real) ^ nat (bitlen ?n)"
    by (metis of_int_le_iff of_int_numeral of_int_power)
  moreover have "\<bar>x\<bar> < of_int (?n + 1)" by linarith
  ultimately have "\<bar>x\<bar> < 2 ^ nat (bitlen ?n)" by linarith
  then have 2: "\<bar>x\<bar> < 2 powi (bitlen ?n)"
    using b by (simp add: power_int_def)
  from True 1 2 show ?thesis by (simp add: expo_def)
next
  case False
  let ?y = "1 / \<bar>x\<bar>"
  let ?m = "\<lceil>?y\<rceil>"
  let ?k = "bitlen (?m - 1)"
  from False assms have x: "0 < \<bar>x\<bar>" "\<bar>x\<bar> < 1" by simp_all
  then have y: "1 < ?y" by simp
  then have m: "0 < ?m - 1" by linarith
  from bitlen_bounds [OF m] have lo: "2 ^ nat (?k - 1) \<le> ?m - 1" and hi: "?m - 1 < 2 ^ nat ?k"
    by simp_all
  from m have k: "1 \<le> ?k" by (simp add: bitlen_alt_def)
  from hi have "?m \<le> 2 ^ nat ?k" by simp
  then have "of_int ?m \<le> (2::real) ^ nat ?k"
    by (metis of_int_le_iff of_int_numeral of_int_power)
  moreover have "?y \<le> of_int ?m" by linarith
  ultimately have "?y \<le> 2 ^ nat ?k" by linarith
  with x have "1 \<le> \<bar>x\<bar> * 2 ^ nat ?k" by (simp add: field_simps)
  then have 1: "2 powi (- ?k) \<le> \<bar>x\<bar>"
    using k by (simp add: power_int_def field_simps)
  from lo have "(2::real) ^ nat (?k - 1) \<le> of_int (?m - 1)"
    by (metis of_int_le_iff of_int_numeral of_int_power)
  moreover have "of_int (?m - 1) < ?y" by linarith
  ultimately have "2 ^ nat (?k - 1) < ?y" by linarith
  with x have "\<bar>x\<bar> * 2 ^ nat (?k - 1) < 1" by (simp add: field_simps)
  then have 2: "\<bar>x\<bar> < 2 powi (- ?k + 1)"
  proof (cases "?k = 1")
    case True
    with \<open>\<bar>x\<bar> * 2 ^ nat (?k - 1) < 1\<close> show ?thesis by simp
  next
    case False
    with k have "- ?k + 1 < 0" "nat (- (- ?k + 1)) = nat (?k - 1)" by simp_all
    with \<open>\<bar>x\<bar> * 2 ^ nat (?k - 1) < 1\<close> show ?thesis
      by (simp add: power_int_def field_simps)
  qed
  from False 1 2 show ?thesis by (simp add: expo_def)
qed

lemma expo_unique:
  assumes "2 powi e \<le> \<bar>x\<bar>" and "\<bar>x\<bar> < 2 powi (e + 1)"
  shows "expo x = e"
proof -
  have "0 < (2::real) powi e" by (rule pow2_pos)
  with assms(1) have "0 < \<bar>x\<bar>" by linarith
  then have "x \<noteq> 0" by simp
  from expo_bounds [OF this] have b: "2 powi expo x \<le> \<bar>x\<bar>" "\<bar>x\<bar> < 2 powi (expo x + 1)"
    by simp_all
  from b(1) assms(2) have "(2::real) powi expo x < 2 powi (e + 1)" by linarith
  then have "expo x < e + 1" by simp
  moreover from assms(1) b(2) have "(2::real) powi e < 2 powi (expo x + 1)" by linarith
  then have "e < expo x + 1" by simp
  ultimately show ?thesis by simp
qed

lemma expo_mono:
  assumes "x \<noteq> 0" and "\<bar>x\<bar> \<le> \<bar>y\<bar>"
  shows "expo x \<le> expo y"
proof -
  from assms have "y \<noteq> 0" by auto
  from expo_bounds [OF assms(1)] expo_bounds [OF this] assms(2)
  have "(2::real) powi expo x < 2 powi (expo y + 1)" by linarith
  then have "expo x < expo y + 1" by simp
  then show ?thesis by simp
qed

lemma expo_minus [simp]: "expo (- x) = expo x"
  by (simp add: expo_def)


lemma round_to_0 [simp]: "round_to p emin 0 = 0"
  by (simp add: round_to_def)

lemma round_to_minus: "round_to p emin (- x) = - round_to p emin x"
  by (simp add: round_to_def Let_def rne_minus)

lemma round_to_nonneg:
  assumes "0 \<le> x"
  shows "0 \<le> round_to p emin x"
proof -
  let ?q = "(2::real) powi (max (expo x) emin - int p + 1)"
  from assms have "0 \<le> x / ?q" by simp
  then have "0 \<le> rne (x / ?q)" by (rule rne_nonneg)
  then show ?thesis by (simp add: round_to_def Let_def)
qed

lemma pow2_nat: "(2::real) powi (int n) = of_int (2 ^ n)"
  by simp

lemma round_to_upper:
  assumes "0 < x"
  shows "round_to p emin x \<le> 2 powi (max (expo x) emin + 1)"
proof -
  let ?E = "max (expo x) emin"
  let ?q = "(2::real) powi (?E - int p + 1)"
  have q: "0 < ?q" by (rule pow2_pos)
  have e: "(2::real) powi (?E + 1) = of_int (2 ^ p) * ?q"
    using pow2_add [of "int p" "?E - int p + 1"] by (simp add: algebra_simps)
  from assms expo_bounds [of x] have "x < 2 powi (expo x + 1)" by simp
  also have "\<dots> \<le> 2 powi (?E + 1)" by simp
  finally have "x < of_int (2 ^ p) * ?q" by (simp only: e)
  with q have "x / ?q \<le> of_int (2 ^ p)" by (simp add: field_simps)
  then have "rne (x / ?q) \<le> rne (of_int (2 ^ p))" by (rule rne_mono)
  then have "rne (x / ?q) \<le> 2 ^ p" by (simp only: rne_of_int)
  then have "(of_int (rne (x / ?q))::real) \<le> of_int (2 ^ p)" by (simp only: of_int_le_iff)
  with q have "of_int (rne (x / ?q)) * ?q \<le> of_int (2 ^ p) * ?q"
    by (intro mult_right_mono) simp_all
  then show ?thesis by (simp only: e round_to_def Let_def)
qed

lemma round_to_lower:
  assumes "0 < x" and "emin \<le> expo x" and "0 < p"
  shows "2 powi expo x \<le> round_to p emin x"
proof -
  let ?q = "(2::real) powi (expo x - int p + 1)"
  have q: "0 < ?q" by (rule pow2_pos)
  from assms(2) have m: "max (expo x) emin = expo x" by simp
  from assms(3) have s: "int (p - 1) + (expo x - int p + 1) = expo x" by simp
  have "(2::real) powi (int (p - 1) + (expo x - int p + 1)) = 2 powi int (p - 1) * ?q"
    by (rule pow2_add)
  then have e: "(2::real) powi expo x = of_int (2 ^ (p - 1)) * ?q"
    by (simp only: s pow2_nat)
  from assms(1) expo_bounds [of x] have "of_int (2 ^ (p - 1)) * ?q \<le> x" by (simp add: e)
  with q have "of_int (2 ^ (p - 1)) \<le> x / ?q" by (simp add: field_simps)
  then have "rne (of_int (2 ^ (p - 1))) \<le> rne (x / ?q)" by (rule rne_mono)
  then have "2 ^ (p - 1) \<le> rne (x / ?q)" by (simp only: rne_of_int)
  then have "(of_int (2 ^ (p - 1))::real) \<le> of_int (rne (x / ?q))" by (simp only: of_int_le_iff)
  with q have "of_int (2 ^ (p - 1)) * ?q \<le> of_int (rne (x / ?q)) * ?q"
    by (intro mult_right_mono) simp_all
  then show ?thesis by (simp only: e m round_to_def Let_def)
qed

lemma round_to_mono_pos:
  assumes "0 < x" and "x \<le> y" and "0 < p"
  shows "round_to p emin x \<le> round_to p emin y"
proof -
  let ?Ex = "max (expo x) emin"
  let ?Ey = "max (expo y) emin"
  from assms have y: "0 < y" by simp
  from assms(1,2) have exy: "expo x \<le> expo y" by (intro expo_mono) simp_all
  then have le: "?Ex \<le> ?Ey" by simp
  show ?thesis
  proof (cases "?Ex = ?Ey")
    case True
    let ?q = "(2::real) powi (?Ex - int p + 1)"
    have "0 < ?q" by (rule pow2_pos)
    with assms(2) have "x / ?q \<le> y / ?q" by (simp add: divide_right_mono)
    then have "rne (x / ?q) \<le> rne (y / ?q)" by (rule rne_mono)
    then have "(of_int (rne (x / ?q))::real) \<le> of_int (rne (y / ?q))" by simp
    with \<open>0 < ?q\<close> have "of_int (rne (x / ?q)) * ?q \<le> of_int (rne (y / ?q)) * ?q"
      by (intro mult_right_mono) simp_all
    with True show ?thesis by (simp add: round_to_def Let_def)
  next
    case False
    with le have lt: "?Ex < ?Ey" by linarith
    with exy have n: "emin \<le> expo y" and ey: "?Ey = expo y"
      unfolding max_def by (auto split: if_splits)
    from lt ey have "?Ex + 1 \<le> expo y" by linarith
    then have "(2::real) powi (?Ex + 1) \<le> 2 powi expo y" by simp
    with round_to_upper [OF assms(1), of p emin] round_to_lower [OF y n assms(3)]
    show ?thesis by linarith
  qed
qed

lemma round_to_mono:
  assumes "0 < p" and "x \<le> y"
  shows "round_to p emin x \<le> round_to p emin y"
proof -
  consider "0 < x" | "x \<le> 0" "0 \<le> y" | "y < 0" by linarith
  then show ?thesis
  proof cases
    case 1
    with assms show ?thesis by (intro round_to_mono_pos) simp_all
  next
    case 2
    from 2(1) have "0 \<le> round_to p emin (- x)" by (intro round_to_nonneg) simp
    then have "round_to p emin x \<le> 0" by (simp add: round_to_minus)
    with round_to_nonneg [OF 2(2), of p emin] show ?thesis by linarith
  next
    case 3
    with assms have "round_to p emin (- y) \<le> round_to p emin (- x)"
      by (intro round_to_mono_pos) simp_all
    then show ?thesis by (simp add: round_to_minus)
  qed
qed

lemma round_to_expo:
  assumes "2 powi e \<le> \<bar>x\<bar>" and "\<bar>x\<bar> < 2 powi (e + 1)"
  shows "round_to p emin x =
     of_int (rne (x / 2 powi (max e emin - int p + 1))) * 2 powi (max e emin - int p + 1)"
  using expo_unique [OF assms] by (simp add: round_to_def Let_def)

lemma round_to_exact:
  assumes "x = of_int m * 2 powi k" and "\<bar>m\<bar> < 2 ^ p" and "emin - int p + 1 \<le> k"
  shows "round_to p emin x = x"
proof (cases "x = 0")
  case True
  then show ?thesis by simp
next
  case False
  define j where "j = max (expo x) emin - int p + 1"
  from assms(2) have "(of_int \<bar>m\<bar>::real) < of_int (2 ^ p)" by (simp only: of_int_less_iff)
  then have "\<bar>x\<bar> < of_int (2 ^ p) * 2 powi k"
    by (simp add: assms(1) abs_mult)
  also have "\<dots> = 2 powi (int p + k)" by (simp add: pow2_add)
  finally have "\<bar>x\<bar> < 2 powi (int p + k)" .
  with expo_bounds [OF False] have "(2::real) powi expo x < 2 powi (int p + k)" by linarith
  then have "expo x < int p + k" by simp
  with assms(3) have "j \<le> k" by (simp add: j_def)
  define d where "d = nat (k - j)"
  from \<open>j \<le> k\<close> have "k = j + int d" by (simp add: d_def)
  then have "(2::real) powi k = 2 powi j * 2 powi (int d)" by (simp only: pow2_add)
  with assms(1) have "x = of_int m * (2 powi j * 2 powi (int d))" by simp
  then have xq: "x / 2 powi j = of_int (m * 2 ^ d)" by simp
  have "rne (x / 2 powi j) = m * 2 ^ d" by (simp only: xq rne_of_int)
  then have "round_to p emin x = of_int (m * 2 ^ d) * 2 powi j"
    by (simp add: round_to_def Let_def j_def)
  also have "\<dots> = x" using xq by (simp add: field_simps)
  finally show ?thesis .
qed

subsection \<open>The two formats\<close>

lemma to_double_mono: "x \<le> y \<Longrightarrow> to_double x \<le> to_double y"
  unfolding to_double_def by (rule round_to_mono) simp_all

lemma to_float32_mono: "x \<le> y \<Longrightarrow> to_float32 x \<le> to_float32 y"
  unfolding to_float32_def by (rule round_to_mono) simp_all

lemma to_double_minus: "to_double (- x) = - to_double x"
  by (simp add: to_double_def round_to_minus)

lemma to_float32_minus: "to_float32 (- x) = - to_float32 x"
  by (simp add: to_float32_def round_to_minus)

lemma to_double_0 [simp]: "to_double 0 = 0"
  by (simp add: to_double_def)

lemma to_float32_0 [simp]: "to_float32 0 = 0"
  by (simp add: to_float32_def)

text \<open>Small integers are numbers of both formats.\<close>

lemma to_double_of_int:
  assumes "\<bar>m\<bar> < 2 ^ 53"
  shows "to_double (of_int m) = of_int m"
  unfolding to_double_def
  by (rule round_to_exact [where m = m and k = 0]) (use assms in simp_all)

lemma to_float32_of_int:
  assumes "\<bar>m\<bar> < 2 ^ 24"
  shows "to_float32 (of_int m) = of_int m"
  unfolding to_float32_def
  by (rule round_to_exact [where m = m and k = 0]) (use assms in simp_all)

lemma to_double_small_ints [simp]:
  "to_double 1 = 1" "to_double 2 = 2" "to_double 180 = 180" "to_double (- 1) = - 1"
  "to_double (- 180) = - 180"
  using to_double_of_int [of 1] to_double_of_int [of 2] to_double_of_int [of 180]
    to_double_of_int [of "- 1"] to_double_of_int [of "- 180"]
  by simp_all

lemma to_float32_180 [simp]: "to_float32 180 = 180" "to_float32 (- 180) = - 180"
  using to_float32_of_int [of 180] to_float32_of_int [of "- 180"] by simp_all

text \<open>The double that the literal \<open>1.8\<close> denotes.\<close>

lemma radius_value: "radius = 8106479329266893 / 2 ^ 52"
proof -
  have "round_to 53 (- 1022) 1.8 =
      of_int (rne (1.8 / 2 powi (max 0 (- 1022) - int 53 + 1))) * 2 powi (max 0 (- 1022) - int 53 + 1)"
    by (rule round_to_expo) simp_all
  also have "\<dots> = 8106479329266893 / 2 ^ 52"
    by (simp add: rne_def Let_def power_int_minus field_simps)
  finally show ?thesis by (simp add: radius_def to_double_def)
qed

lemma radius_pos: "0 < radius"
  by (simp add: radius_value)

lemma to_double_radius: "to_double radius = radius" "to_double (- radius) = - radius"
proof -
  have "round_to 53 (- 1022) radius = radius"
    by (rule round_to_exact [where m = 8106479329266893 and k = "- 52"])
      (simp_all add: radius_value power_int_minus field_simps)
  then show "to_double radius = radius" by (simp add: to_double_def)
  then show "to_double (- radius) = - radius" by (simp add: to_double_minus)
qed

subsection \<open>Results that are zero\<close>

lemma rne_eq_0:
  assumes "rne y = 0"
  shows "\<bar>y\<bar> \<le> 1 / 2"
proof -
  from rne_cases [of y] assms have f: "\<lfloor>y\<rfloor> = 0 \<or> \<lfloor>y\<rfloor> = - 1" by auto
  have b: "of_int \<lfloor>y\<rfloor> \<le> y" "y < of_int \<lfloor>y\<rfloor> + 1" by linarith+
  from f show ?thesis
  proof
    assume z: "\<lfloor>y\<rfloor> = 0"
    with assms have "\<not> 1 / 2 < y" by (auto simp: rne_def Let_def split: if_splits)
    with b z show ?thesis by simp
  next
    assume m: "\<lfloor>y\<rfloor> = - 1"
    with assms have "\<not> y + 1 < 1 / 2" by (auto simp: rne_def Let_def split: if_splits)
    with b m show ?thesis by simp
  qed
qed

lemma round_to_eq_0:
  assumes "0 < p" and "round_to p emin x = 0"
  shows "\<bar>x\<bar> \<le> 2 powi (emin - int p)"
proof (cases "x = 0")
  case True
  then show ?thesis by simp
next
  case False
  define E where "E = max (expo x) emin"
  define q :: real where "q = 2 powi (E - int p + 1)"
  have q: "0 < q" by (simp add: q_def)
  from assms(2) q have "rne (x / q) = 0" by (simp add: round_to_def Let_def q_def E_def)
  then have "\<bar>x / q\<bar> \<le> 1 / 2" by (rule rne_eq_0)
  with q have h: "\<bar>x\<bar> \<le> q / 2" by (simp add: field_simps)
  have "E = emin"
  proof (rule ccontr)
    assume "E \<noteq> emin"
    then have e: "E = expo x" by (simp add: E_def max_def split: if_splits)
    from assms(1) have "E - int p + 1 \<le> E" by simp
    then have "q \<le> 2 powi E" by (simp add: q_def)
    with expo_bounds [OF False] e have "q \<le> \<bar>x\<bar>" by simp
    with h q show False by simp
  qed
  then have "q / 2 = 2 powi (emin - int p)"
    using pow2_add [of "emin - int p" 1] by (simp add: q_def algebra_simps)
  with h show ?thesis by simp
qed

lemma round_to_fixed_ge:
  assumes "round_to p emin v = v" and "v \<noteq> 0"
  shows "2 powi (emin - int p + 1) \<le> \<bar>v\<bar>"
proof -
  define q :: real where "q = 2 powi (max (expo v) emin - int p + 1)"
  have q: "0 < q" by (simp add: q_def)
  from assms(1) have v: "v = of_int (rne (v / q)) * q" by (simp add: round_to_def Let_def q_def)
  with assms(2) have "rne (v / q) \<noteq> 0" by auto
  then have "1 \<le> \<bar>rne (v / q)\<bar>" by simp
  then have "(1::real) \<le> of_int \<bar>rne (v / q)\<bar>" by (simp only: of_int_1_le_iff)
  with q have "q \<le> of_int \<bar>rne (v / q)\<bar> * q" by simp
  also have "\<dots> = \<bar>v\<bar>" using q by (subst (2) v) (simp add: abs_mult)
  finally have "q \<le> \<bar>v\<bar>" .
  moreover have "2 powi (emin - int p + 1) \<le> q" by (simp add: q_def)
  ultimately show ?thesis by linarith
qed

lemma double_of_eq_0: "double_of x = Finite 0 \<longleftrightarrow> to_double x = 0"
  by (auto simp: double_of_def Let_def max_double_def split: if_splits)

lemma fmul_2_eq_0:
  assumes "is_pyfloat x_max"
  shows "fmul x_max (Finite 2) = Finite 0 \<longleftrightarrow> x_max = Finite 0"
proof (cases x_max)
  case (Finite v)
  show ?thesis
  proof (cases "v = 0")
    case True
    with Finite show ?thesis by (simp add: double_of_eq_0)
  next
    case False
    from assms Finite have "round_to 53 (- 1022) v = v" by (simp add: to_double_def)
    from round_to_fixed_ge [OF this False] have g: "2 powi (- 1074) \<le> \<bar>v\<bar>" by simp
    have "to_double (v * 2) \<noteq> 0"
    proof
      assume "to_double (v * 2) = 0"
      then have "round_to 53 (- 1022) (v * 2) = 0" by (simp add: to_double_def)
      then have "\<bar>v * 2\<bar> \<le> 2 powi (- 1022 - int 53)" by (intro round_to_eq_0) simp_all
      then have "\<bar>v\<bar> * 2 \<le> 2 powi (- 1075)" by (simp add: abs_mult)
      moreover have "(2::real) powi (- 1075) < 2 powi (- 1074)" by (simp only: pow2_less_iff)
      ultimately show False using g by linarith
    qed
    with Finite False show ?thesis by (simp add: double_of_eq_0)
  qed
qed simp_all

lemma double_of_exact:
  assumes "x = of_int m * 2 powi k" and "\<bar>m\<bar> < 2 ^ 53" and "- 1074 \<le> k" and "\<bar>x\<bar> \<le> max_double"
  shows "double_of x = Finite x"
proof -
  have "round_to 53 (- 1022) x = x"
    by (rule round_to_exact [OF assms(1,2)]) (use assms(3) in simp)
  with assms(4) show ?thesis by (auto simp: double_of_def to_double_def Let_def)
qed

section \<open>Properties of norm and of the initial conditions\<close>

lemma starting_pts_loop_length:
  "length (fst (starting_pts_loop R c n g x0s)) = length x0s + n"
  by (induction n arbitrary: g x0s) (simp_all add: random_def)

lemma starting_pts_loop_rng:
  "snd (starting_pts_loop R c n g x0s) = g + 3 * n"
  by (induction n arbitrary: g x0s) (simp_all add: random_def)

subsection \<open>norm\<close>

lemma norm_py_range:
  assumes "flt (Finite 0) n" and "flt n (Finite 1)"
  shows "\<exists>v. n = Finite v \<and> 0 < v \<and> v < 1"
  using assms by (cases n) simp_all

lemma to_double_int_eq_0: "to_double (of_int k) = 0 \<longleftrightarrow> k = 0"
proof
  assume z: "to_double (of_int k) = 0"
  show "k = 0"
  proof (rule ccontr)
    assume "k \<noteq> 0"
    then consider "1 \<le> k" | "k \<le> - 1" by linarith
    then show False
    proof cases
      case 1
      then have "(1::real) \<le> of_int k" by simp
      from to_double_mono [OF this] z show False by simp
    next
      case 2
      then have "of_int k \<le> (- 1::real)" by simp
      from to_double_mono [OF this] z show False by simp
    qed
  qed
qed simp

lemma int_to_float_zero: "int_to_float b = Inr (Finite 0) \<longleftrightarrow> b = 0"
  by (auto simp: int_to_float_def Let_def to_double_int_eq_0 max_double_def split: if_splits)

lemma times2_zero:
  assumes "is_pynum x_max"
  shows "is_zero (times2 x_max) \<longleftrightarrow> is_zero x_max"
  using assms by (cases x_max) (simp_all add: fmul_2_eq_0)

lemma true_div_error:
  assumes "true_div x d = Inl e"
  shows "(e = ZeroDivisionError \<and> is_zero d) \<or> (e = OverflowError \<and> (is_int x \<or> is_int d))"
proof (cases x; cases d)
  fix a b
  assume "x = PyInt a" "d = PyInt b"
  with assms show ?thesis by (auto simp: Let_def split: if_splits)
next
  fix a g
  assume "x = PyInt a" "d = PyFloat g"
  with assms show ?thesis
    by (auto simp: int_to_float_def Let_def split: if_splits sum.splits)
next
  fix f b
  assume "x = PyFloat f" "d = PyInt b"
  with assms show ?thesis
    by (auto simp: int_to_float_zero split: if_splits sum.splits)
      (auto simp: int_to_float_def Let_def split: if_splits)
next
  fix f g
  assume "x = PyFloat f" "d = PyFloat g"
  with assms show ?thesis by (auto split: if_splits)
qed

text \<open>
  Claim C8, as the code has it, for arguments that are Python numbers. Let \<open>n\<close> be the
  float that \<open>x/(x_max*2) + 0.5\<close> evaluates to, each operation rounded to the nearest
  double and possibly infinite or NaN. With a float \<open>x\<close>, or with two ints, \<open>norm\<close> raises
  \<open>ZeroDivisionError\<close> when \<open>x_max\<close> is zero. It raises \<open>OverflowError\<close> when an int
  operand of the division with a float, or the quotient of two ints, is beyond the
  doubles. For all other numbers it returns \<open>n\<close> when \<open>0 < n < 1\<close> and raises \<open>ValueError\<close>,
  with \<open>x\<close>, \<open>x_max\<close> and \<open>n\<close> in its diagnostic, otherwise. Whatever the arguments, what
  \<open>norm\<close> returns is a finite number strictly between 0 and 1, and what it raises is
  \<open>ZeroDivisionError\<close> for a zero \<open>x_max\<close>, \<open>OverflowError\<close> for an int argument, or
  \<open>ValueError\<close> for an \<open>n\<close> that is not strictly between 0 and 1; nothing in \<open>norm\<close>
  catches the error.
\<close>

theorem norm_py_result:
  "(is_zero x_max \<and> (is_int x \<longrightarrow> is_int x_max) \<longrightarrow> norm_py x x_max = Inl ZeroDivisionError)
   \<and> (x = PyFloat f \<and> x_max = PyFloat g \<and> is_pyfloat g \<and> g \<noteq> Finite 0 \<longrightarrow>
        norm_py x x_max =
          (let n = fadd (fdiv f (fmul g (Finite 2))) (Finite 0.5)
           in if flt (Finite 0) n \<and> flt n (Finite 1) then Inr n
              else Inl (ValueError (AbnormalNorm x x_max n))))
   \<and> (x = PyFloat f \<and> x_max = PyInt m \<and> m \<noteq> 0 \<longrightarrow>
        norm_py x x_max =
          (if max_double < \<bar>to_double (of_int (m * 2))\<bar> then Inl OverflowError
           else (let n = fadd (fdiv f (Finite (to_double (of_int (m * 2))))) (Finite 0.5)
                 in if flt (Finite 0) n \<and> flt n (Finite 1) then Inr n
                    else Inl (ValueError (AbnormalNorm x x_max n)))))
   \<and> (x = PyInt a \<and> x_max = PyFloat g \<and> is_pyfloat g \<and> g \<noteq> Finite 0 \<longrightarrow>
        norm_py x x_max =
          (if max_double < \<bar>to_double (of_int a)\<bar> then Inl OverflowError
           else (let n = fadd (fdiv (Finite (to_double (of_int a))) (fmul g (Finite 2))) (Finite 0.5)
                 in if flt (Finite 0) n \<and> flt n (Finite 1) then Inr n
                    else Inl (ValueError (AbnormalNorm x x_max n)))))
   \<and> (x = PyInt a \<and> x_max = PyInt m \<and> m \<noteq> 0 \<longrightarrow>
        norm_py x x_max =
          (if max_double < \<bar>to_double (of_int a / of_int (m * 2))\<bar> then Inl OverflowError
           else (let n = fadd (Finite (to_double (of_int a / of_int (m * 2)))) (Finite 0.5)
                 in if flt (Finite 0) n \<and> flt n (Finite 1) then Inr n
                    else Inl (ValueError (AbnormalNorm x x_max n)))))
   \<and> (norm_py x x_max = Inr r \<longrightarrow> (\<exists>v. r = Finite v \<and> 0 < v \<and> v < 1))
   \<and> (norm_py x x_max = Inl e \<and> is_pynum x_max \<longrightarrow>
        (e = ZeroDivisionError \<and> is_zero x_max)
        \<or> (e = OverflowError \<and> (is_int x \<or> is_int x_max))
        \<or> (\<exists>n. e = ValueError (AbnormalNorm x x_max n)
              \<and> \<not> (flt (Finite 0) n \<and> flt n (Finite 1))))"
proof -
  have 1: "is_zero x_max \<and> (is_int x \<longrightarrow> is_int x_max) \<longrightarrow> norm_py x x_max = Inl ZeroDivisionError"
    by (cases x; cases x_max)
      (auto simp: norm_py_def double_of_eq_0 int_to_float_def Let_def max_double_def)
  have 2: "x = PyFloat f \<and> x_max = PyFloat g \<and> is_pyfloat g \<and> g \<noteq> Finite 0 \<longrightarrow>
        norm_py x x_max =
          (let n = fadd (fdiv f (fmul g (Finite 2))) (Finite 0.5)
           in if flt (Finite 0) n \<and> flt n (Finite 1) then Inr n
              else Inl (ValueError (AbnormalNorm x x_max n)))"
  proof
    assume a: "x = PyFloat f \<and> x_max = PyFloat g \<and> is_pyfloat g \<and> g \<noteq> Finite 0"
    with fmul_2_eq_0 [of g] have "fmul g (Finite 2) \<noteq> Finite 0" by simp
    with a show "norm_py x x_max =
          (let n = fadd (fdiv f (fmul g (Finite 2))) (Finite 0.5)
           in if flt (Finite 0) n \<and> flt n (Finite 1) then Inr n
              else Inl (ValueError (AbnormalNorm x x_max n)))"
      by (simp add: norm_py_def Let_def)
  qed
  have 3: "x = PyFloat f \<and> x_max = PyInt m \<and> m \<noteq> 0 \<longrightarrow>
        norm_py x x_max =
          (if max_double < \<bar>to_double (of_int (m * 2))\<bar> then Inl OverflowError
           else (let n = fadd (fdiv f (Finite (to_double (of_int (m * 2))))) (Finite 0.5)
                 in if flt (Finite 0) n \<and> flt n (Finite 1) then Inr n
                    else Inl (ValueError (AbnormalNorm x x_max n))))"
  proof
    assume a: "x = PyFloat f \<and> x_max = PyInt m \<and> m \<noteq> 0"
    then have "m * 2 \<noteq> 0" by simp
    then have z: "to_double (of_int (m * 2)) \<noteq> 0" by (simp only: to_double_int_eq_0) simp
    with a show "norm_py x x_max =
          (if max_double < \<bar>to_double (of_int (m * 2))\<bar> then Inl OverflowError
           else (let n = fadd (fdiv f (Finite (to_double (of_int (m * 2))))) (Finite 0.5)
                 in if flt (Finite 0) n \<and> flt n (Finite 1) then Inr n
                    else Inl (ValueError (AbnormalNorm x x_max n))))"
      by (simp add: norm_py_def int_to_float_def Let_def)
  qed
  have 4: "x = PyInt a \<and> x_max = PyFloat g \<and> is_pyfloat g \<and> g \<noteq> Finite 0 \<longrightarrow>
        norm_py x x_max =
          (if max_double < \<bar>to_double (of_int a)\<bar> then Inl OverflowError
           else (let n = fadd (fdiv (Finite (to_double (of_int a))) (fmul g (Finite 2))) (Finite 0.5)
                 in if flt (Finite 0) n \<and> flt n (Finite 1) then Inr n
                    else Inl (ValueError (AbnormalNorm x x_max n))))"
  proof
    assume a: "x = PyInt a \<and> x_max = PyFloat g \<and> is_pyfloat g \<and> g \<noteq> Finite 0"
    with fmul_2_eq_0 [of g] have "fmul g (Finite 2) \<noteq> Finite 0" by simp
    with a show "norm_py x x_max =
          (if max_double < \<bar>to_double (of_int a)\<bar> then Inl OverflowError
           else (let n = fadd (fdiv (Finite (to_double (of_int a))) (fmul g (Finite 2))) (Finite 0.5)
                 in if flt (Finite 0) n \<and> flt n (Finite 1) then Inr n
                    else Inl (ValueError (AbnormalNorm x x_max n))))"
      by (simp add: norm_py_def int_to_float_def Let_def)
  qed
  have 5: "x = PyInt a \<and> x_max = PyInt m \<and> m \<noteq> 0 \<longrightarrow>
        norm_py x x_max =
          (if max_double < \<bar>to_double (of_int a / of_int (m * 2))\<bar> then Inl OverflowError
           else (let n = fadd (Finite (to_double (of_int a / of_int (m * 2)))) (Finite 0.5)
                 in if flt (Finite 0) n \<and> flt n (Finite 1) then Inr n
                    else Inl (ValueError (AbnormalNorm x x_max n))))"
    by (simp add: norm_py_def Let_def)
  have 6: "norm_py x x_max = Inr r \<longrightarrow> (\<exists>v. r = Finite v \<and> 0 < v \<and> v < 1)"
  proof
    assume "norm_py x x_max = Inr r"
    then have "flt (Finite 0) r \<and> flt r (Finite 1)"
      by (auto simp: norm_py_def Let_def split: if_splits sum.splits)
    then show "\<exists>v. r = Finite v \<and> 0 < v \<and> v < 1" by (simp add: norm_py_range)
  qed
  have 7: "norm_py x x_max = Inl e \<and> is_pynum x_max \<longrightarrow>
        (e = ZeroDivisionError \<and> is_zero x_max)
        \<or> (e = OverflowError \<and> (is_int x \<or> is_int x_max))
        \<or> (\<exists>n. e = ValueError (AbnormalNorm x x_max n)
              \<and> \<not> (flt (Finite 0) n \<and> flt n (Finite 1)))"
  proof
    assume a: "norm_py x x_max = Inl e \<and> is_pynum x_max"
    show "(e = ZeroDivisionError \<and> is_zero x_max)
        \<or> (e = OverflowError \<and> (is_int x \<or> is_int x_max))
        \<or> (\<exists>n. e = ValueError (AbnormalNorm x x_max n)
              \<and> \<not> (flt (Finite 0) n \<and> flt n (Finite 1)))"
    proof (cases "true_div x (times2 x_max)")
      case (Inl e')
      with a have "e' = e" by (simp add: norm_py_def)
      with true_div_error [OF Inl] times2_zero [of x_max] a
      have "(e = ZeroDivisionError \<and> is_zero x_max)
          \<or> (e = OverflowError \<and> (is_int x \<or> is_int (times2 x_max)))" by auto
      moreover have "is_int (times2 x_max) = is_int x_max" by (cases x_max) simp_all
      ultimately show ?thesis by blast
    next
      case (Inr q)
      with a show ?thesis
        by (auto simp: norm_py_def Let_def split: if_splits)
    qed
  qed
  from 1 2 3 4 5 6 7 show ?thesis by (intro conjI)
qed

lemma double_of_small:
  "double_of 120 = Finite 120" "double_of (1 / 4) = Finite (1 / 4)"
  "double_of (3 / 4) = Finite (3 / 4)" "double_of 60 = Finite 60"
  "double_of (3 / 2) = Finite (3 / 2)" "double_of 2 = Finite 2"
  "double_of (1 / 2 - 1 / 2 ^ 54) = Finite (1 / 2 - 1 / 2 ^ 54)"
  "double_of (1 / 2) = Finite (1 / 2)"
proof -
  show "double_of 120 = Finite 120"
    by (rule double_of_exact [where m = 120 and k = 0]) (simp_all add: max_double_def)
  show "double_of (1 / 4) = Finite (1 / 4)"
    by (rule double_of_exact [where m = 1 and k = "- 2"])
      (simp_all add: max_double_def power_int_minus)
  show "double_of (3 / 4) = Finite (3 / 4)"
    by (rule double_of_exact [where m = 3 and k = "- 2"])
      (simp_all add: max_double_def power_int_minus)
  show "double_of 60 = Finite 60"
    by (rule double_of_exact [where m = 60 and k = 0]) (simp_all add: max_double_def)
  show "double_of (3 / 2) = Finite (3 / 2)"
    by (rule double_of_exact [where m = 3 and k = "- 1"])
      (simp_all add: max_double_def power_int_minus)
  show "double_of 2 = Finite 2"
    by (rule double_of_exact [where m = 2 and k = 0]) (simp_all add: max_double_def)
  show "double_of (1 / 2 - 1 / 2 ^ 54) = Finite (1 / 2 - 1 / 2 ^ 54)"
    by (rule double_of_exact [where m = "2 ^ 53 - 1" and k = "- 54"])
      (simp_all add: max_double_def power_int_minus field_simps)
  show "double_of (1 / 2) = Finite (1 / 2)"
    by (rule double_of_exact [where m = 1 and k = "- 1"])
      (simp_all add: max_double_def power_int_minus)
qed

text \<open>A sum that lies halfway between two doubles goes to the even one, here to 1.\<close>

lemma double_of_tie: "double_of (1 - 1 / 2 ^ 54) = Finite 1"
proof -
  have "round_to 53 (- 1022) (1 - 1 / 2 ^ 54) =
      of_int (rne ((1 - 1 / 2 ^ 54) / 2 powi (max (- 1) (- 1022) - int 53 + 1)))
        * 2 powi (max (- 1) (- 1022) - int 53 + 1)"
    by (rule round_to_expo) (simp_all add: power_int_minus)
  also have "\<dots> = 1"
    by (simp add: rne_def Let_def power_int_minus field_simps)
  finally show ?thesis by (simp add: double_of_def to_double_def Let_def max_double_def)
qed

lemma double_of_overflow: "double_of (2 ^ 1023 * 2) = Inf False"
proof -
  have "round_to 53 (- 1022) (2 ^ 1023 * 2) = 2 ^ 1023 * 2"
    by (rule round_to_exact [where m = 1 and k = 1024]) simp_all
  then show ?thesis by (simp add: double_of_def to_double_def Let_def max_double_def)
qed

lemma is_pyfloat_small:
  "is_pyfloat (Finite 0)" "is_pyfloat (Finite 1)" "is_pyfloat (Finite 60)" "is_pyfloat (Finite 30)"
  "is_pyfloat (Finite (2 ^ 1023))"
proof -
  show "is_pyfloat (Finite 0)" by (simp add: max_double_def)
  show "is_pyfloat (Finite 1)" by (simp add: max_double_def)
  show "is_pyfloat (Finite 60)"
    using to_double_of_int [of 60] by (simp add: max_double_def)
  show "is_pyfloat (Finite 30)"
    using to_double_of_int [of 30] by (simp add: max_double_def)
  have "round_to 53 (- 1022) (2 ^ 1023) = 2 ^ 1023"
    by (rule round_to_exact [where m = 1 and k = 1023]) simp_all
  then show "is_pyfloat (Finite (2 ^ 1023))" by (simp add: to_double_def max_double_def)
qed

text \<open>An int beyond the doubles: half of \<open>10^400\<close> is above \<open>2^1024\<close>.\<close>

lemma huge_quotient: "max_double < \<bar>to_double (of_int (10 ^ 400) / of_int (1 * 2))\<bar>"
proof -
  have "round_to 53 (- 1022) (2 ^ 1023 * 2) = 2 ^ 1023 * 2"
    by (rule round_to_exact [where m = 1 and k = 1024]) simp_all
  then have t: "to_double (2 ^ 1023 * 2) = 2 ^ 1023 * 2" by (simp add: to_double_def)
  have "(2 ^ 1023 * 2 :: real) \<le> of_int (10 ^ 400) / of_int (1 * 2)" by simp
  from to_double_mono [OF this] have "2 ^ 1023 * 2 \<le> to_double (of_int (10 ^ 400) / of_int (1 * 2))"
    by (simp only: t)
  moreover have "max_double < 2 ^ 1023 * 2" by (simp add: max_double_def)
  ultimately show ?thesis by linarith
qed

lemma to_double_quarter: "to_double (1 / 4) = 1 / 4"
proof -
  have "round_to 53 (- 1022) (1 / 4) = 1 / 4"
    by (rule round_to_exact [where m = 1 and k = "- 2"]) (simp_all add: power_int_minus)
  then show ?thesis by (simp add: to_double_def)
qed

theorem norm_py_result_witness:
  "norm_py (PyFloat (Finite 1)) (PyFloat (Finite 0)) = Inl ZeroDivisionError
   \<and> norm_py (PyFloat (Finite 1)) (PyInt 0) = Inl ZeroDivisionError
   \<and> is_pyfloat (Finite 60) \<and> is_pyfloat (Finite 30)
   \<and> norm_py (PyFloat (Finite 30)) (PyFloat (Finite 60)) = Inr (Finite (3 / 4))
   \<and> (\<exists>v. Finite (3 / 4) = Finite v \<and> 0 < v \<and> v < 1)
   \<and> norm_py (PyFloat (Finite 15)) (PyInt 30) = Inr (Finite (3 / 4))
   \<and> norm_py (PyInt 15) (PyFloat (Finite 30)) = Inr (Finite (3 / 4))
   \<and> norm_py (PyInt 1) (PyInt 2) = Inr (Finite (3 / 4))
   \<and> norm_py (PyInt (10 ^ 400)) (PyInt 1) = Inl OverflowError
   \<and> norm_py (PyFloat (Finite 90)) (PyFloat (Finite 30))
       = Inl (ValueError (AbnormalNorm (PyFloat (Finite 90)) (PyFloat (Finite 30)) (Finite 2)))
   \<and> \<not> (flt (Finite 0) (Finite 2) \<and> flt (Finite 2) (Finite 1))"
proof -
  from norm_py_result [of "PyFloat (Finite 0)" "PyFloat (Finite 1)"]
  have a: "norm_py (PyFloat (Finite 1)) (PyFloat (Finite 0)) = Inl ZeroDivisionError" by simp
  from norm_py_result [of "PyInt 0" "PyFloat (Finite 1)"]
  have a': "norm_py (PyFloat (Finite 1)) (PyInt 0) = Inl ZeroDivisionError" by simp
  from norm_py_result [of "PyFloat (Finite 60)" "PyFloat (Finite 30)" "Finite 30" "Finite 60"]
    is_pyfloat_small
  have b: "norm_py (PyFloat (Finite 30)) (PyFloat (Finite 60)) = Inr (Finite (3 / 4))"
    by (simp add: double_of_small Let_def)
  with norm_py_result [of "PyFloat (Finite 60)" "PyFloat (Finite 30)" _ _ _ _ "Finite (3 / 4)"]
  have c: "\<exists>v. Finite (3 / 4) = Finite v \<and> 0 < v \<and> v < 1" by blast
  have t: "to_double 60 = 60" using to_double_of_int [of 60] by simp
  have t': "to_double 15 = 15" using to_double_of_int [of 15] by simp
  from norm_py_result [of "PyInt 30" "PyFloat (Finite 15)" "Finite 15" _ 30]
  have d: "norm_py (PyFloat (Finite 15)) (PyInt 30) = Inr (Finite (3 / 4))"
    by (simp add: t double_of_small Let_def max_double_def)
  from norm_py_result [of "PyFloat (Finite 30)" "PyInt 15" _ "Finite 30" _ 15] is_pyfloat_small
  have d': "norm_py (PyInt 15) (PyFloat (Finite 30)) = Inr (Finite (3 / 4))"
    by (simp add: t' double_of_small Let_def max_double_def)
  from norm_py_result [of "PyInt 2" "PyInt 1" _ _ 2 1]
  have d'': "norm_py (PyInt 1) (PyInt 2) = Inr (Finite (3 / 4))"
    by (simp add: to_double_quarter double_of_small Let_def max_double_def)
  from norm_py_result [of "PyInt 1" "PyInt (10 ^ 400)" _ _ 1 "10 ^ 400"] huge_quotient
  have o: "norm_py (PyInt (10 ^ 400)) (PyInt 1) = Inl OverflowError"
    by (simp only: pynum.inject simp_thms if_True)
  from norm_py_result [of "PyFloat (Finite 30)" "PyFloat (Finite 90)" "Finite 90" "Finite 30"]
    is_pyfloat_small
  have e: "norm_py (PyFloat (Finite 90)) (PyFloat (Finite 30))
       = Inl (ValueError (AbnormalNorm (PyFloat (Finite 90)) (PyFloat (Finite 30)) (Finite 2)))"
    by (simp add: double_of_small Let_def)
  from a a' b c d d' d'' o e is_pyfloat_small show ?thesis by simp
qed

text \<open>
  Claim C8 as stated fails for \<open>x_max = 0\<close>, where the call neither returns nor raises
  \<open>ValueError\<close>, and for the int \<open>x = 10^400\<close> with \<open>x_max = 1\<close>, where it raises
  \<open>OverflowError\<close>. It also fails when the value is taken exactly: for the double
  \<open>x = 1 - 2^-53\<close> and \<open>x_max = 1\<close> the exact value lies strictly between 0 and 1 and the
  call raises \<open>ValueError\<close>, the sum having rounded to 1; for \<open>x = x_max = 2^1023\<close> the exact
  value is 1 and the call returns 0.5, the product \<open>x_max*2\<close> having overflowed.
\<close>

theorem norm_py_not_exact:
  "norm_py (PyFloat (Finite 1)) (PyFloat (Finite 0)) = Inl ZeroDivisionError
   \<and> norm_py (PyInt (10 ^ 400)) (PyInt 1) = Inl OverflowError
   \<and> is_pyfloat (Finite 1) \<and> is_pyfloat (Finite 0)
   \<and> 0 < (1 - 1 / 2 ^ 53) / (2 * 1) + (0.5::real) \<and> (1 - 1 / 2 ^ 53) / (2 * 1) + (0.5::real) < 1
   \<and> norm_py (PyFloat (Finite (1 - 1 / 2 ^ 53))) (PyFloat (Finite 1))
       = Inl (ValueError (AbnormalNorm (PyFloat (Finite (1 - 1 / 2 ^ 53))) (PyFloat (Finite 1))
               (Finite 1)))
   \<and> \<not> (2 ^ 1023 / (2 * 2 ^ 1023) + (0.5::real) < 1)
   \<and> norm_py (PyFloat (Finite (2 ^ 1023))) (PyFloat (Finite (2 ^ 1023))) = Inr (Finite 0.5)"
proof -
  have a: "norm_py (PyFloat (Finite 1)) (PyFloat (Finite 0)) = Inl ZeroDivisionError"
    by (simp add: norm_py_def double_of_eq_0)
  have o: "norm_py (PyInt (10 ^ 400)) (PyInt 1) = Inl OverflowError"
    using huge_quotient by (simp only: norm_py_def times2.simps true_div.simps Let_def) simp
  have h: "(1 - 1 / 2 ^ 53) / 2 = (1 / 2 - 1 / 2 ^ 54 :: real)" by simp
  have s: "1 / 2 - 1 / 2 ^ 54 + 1 / 2 = (1 - 1 / 2 ^ 54 :: real)" by simp
  have b: "norm_py (PyFloat (Finite (1 - 1 / 2 ^ 53))) (PyFloat (Finite 1))
       = Inl (ValueError (AbnormalNorm (PyFloat (Finite (1 - 1 / 2 ^ 53))) (PyFloat (Finite 1))
               (Finite 1)))"
    by (simp add: norm_py_def Let_def double_of_small h s double_of_tie del: power_numeral)
  have m: "fmul (Finite (2 ^ 1023)) (Finite 2) = Inf False"
    by (simp only: fmul.simps double_of_overflow)
  have "norm_py (PyFloat (Finite (2 ^ 1023))) (PyFloat (Finite (2 ^ 1023))) =
      (case true_div (PyFloat (Finite (2 ^ 1023))) (PyFloat (Inf False)) of
         Inl e \<Rightarrow> Inl e
       | Inr q \<Rightarrow>
           (let n = fadd q (Finite 0.5)
            in if flt (Finite 0) n \<and> flt n (Finite 1) then Inr n
               else Inl (ValueError (AbnormalNorm (PyFloat (Finite (2 ^ 1023)))
                      (PyFloat (Finite (2 ^ 1023))) n))))"
    by (simp only: norm_py_def times2.simps m)
  also have "\<dots> = Inr (Finite 0.5)" by (simp add: Let_def double_of_small)
  finally have c: "norm_py (PyFloat (Finite (2 ^ 1023))) (PyFloat (Finite (2 ^ 1023)))
      = Inr (Finite 0.5)" .
  from a o b c is_pyfloat_small show ?thesis by simp
qed

text \<open>
  Claim C1, as the code has it. \<open>generate_random_starting_pts\<close> raises \<open>ValueError\<close>
  with its diagnostic, before it draws anything, exactly when the radius 1.8 is strictly
  less than half the lane width at the waypoint; otherwise it does not raise and returns
  the \<open>num\<close> requested samples, having drawn three random numbers for each.
\<close>

theorem starting_pts_guard:
  "(radius < lane_width wp / 2 \<longrightarrow>
      generate_random_starting_pts R wp num g = Inl (ValueError RadiusLtHalfLaneWidth))
   \<and> (\<not> radius < lane_width wp / 2 \<longrightarrow>
      (\<exists>x0s. generate_random_starting_pts R wp num g = Inr (x0s, g + 3 * num)
             \<and> length x0s = num))"
proof -
  obtain x0s g' where l: "starting_pts_loop R (location (transform wp)) num g [] = (x0s, g')"
    by (cases "starting_pts_loop R (location (transform wp)) num g []")
  from l starting_pts_loop_length [of R "location (transform wp)" num g "[]"]
  have "length x0s = num" by simp
  moreover from l starting_pts_loop_rng [of R "location (transform wp)" num g "[]"]
  have "g' = g + 3 * num" by simp
  ultimately show ?thesis
    using l by (simp add: generate_random_starting_pts_def)
qed

theorem starting_pts_guard_witness:
  "radius < lane_width (road_wp 4 0) / 2
   \<and> generate_random_starting_pts zero_draws (road_wp 4 0) 200 0
       = Inl (ValueError RadiusLtHalfLaneWidth)
   \<and> \<not> radius < lane_width (road_wp 3.5 0) / 2
   \<and> (\<exists>x0s. generate_random_starting_pts zero_draws (road_wp 3.5 0) 200 0 = Inr (x0s, 600)
             \<and> length x0s = 200)"
  using starting_pts_guard [of "road_wp 4 0" zero_draws 200 0]
    starting_pts_guard [of "road_wp 3.5 0" zero_draws 200 0]
  by (simp add: radius_value road_wp_def)

text \<open>
  Claim C1 as stated fails in both directions: on a lane 3 wide the radius exceeds half
  the lane width and the call returns; on a lane 4 wide the radius does not exceed half
  the lane width and the call raises.
\<close>

theorem starting_pts_guard_inverted:
  "lane_width (road_wp 3 0) / 2 < radius
   \<and> generate_random_starting_pts zero_draws (road_wp 3 0) 0 0 = Inr ([], 0)
   \<and> radius \<le> lane_width (road_wp 4 0) / 2
   \<and> generate_random_starting_pts zero_draws (road_wp 4 0) 0 0
       = Inl (ValueError RadiusLtHalfLaneWidth)"
  by (simp add: generate_random_starting_pts_def radius_value road_wp_def)

subsection \<open>Where a starting point can lie\<close>

lemma unit_draw:
  assumes "0 \<le> u" and "u < 1"
  shows "- 1 \<le> to_double (to_double (2 * u) - 1) \<and> to_double (to_double (2 * u) - 1) \<le> 1"
proof -
  from assms have "to_double 0 \<le> to_double (2 * u)" "to_double (2 * u) \<le> to_double 2"
    by (simp_all add: to_double_mono del: to_double_0 to_double_small_ints)
  then have "- 1 \<le> to_double (2 * u) - 1" "to_double (2 * u) - 1 \<le> 1" by simp_all
  then have "to_double (- 1) \<le> to_double (to_double (2 * u) - 1)"
    "to_double (to_double (2 * u) - 1) \<le> to_double 1"
    by (simp_all add: to_double_mono del: to_double_small_ints)
  then show ?thesis by simp
qed

lemma offset_bounds:
  assumes "- 1 \<le> w" and "w \<le> 1"
  shows "- radius \<le> to_double (radius * w) \<and> to_double (radius * w) \<le> radius"
proof -
  from radius_pos have r: "0 \<le> radius" by simp
  from mult_left_mono [OF assms(1) r] mult_left_mono [OF assms(2) r]
  have "- radius \<le> radius * w" "radius * w \<le> radius" by simp_all
  then have "to_double (- radius) \<le> to_double (radius * w)"
    "to_double (radius * w) \<le> to_double radius"
    by (simp_all add: to_double_mono)
  then show ?thesis by (simp add: to_double_radius)
qed

lemma coordinate_bounds:
  assumes "0 \<le> u" and "u < 1"
  shows "to_float32 (to_double (c - radius))
       \<le> to_float32 (to_double (c + to_double (radius * to_double (to_double (2 * u) - 1))))
     \<and> to_float32 (to_double (c + to_double (radius * to_double (to_double (2 * u) - 1))))
       \<le> to_float32 (to_double (c + radius))"
proof -
  from unit_draw [OF assms] offset_bounds
  have "- radius \<le> to_double (radius * to_double (to_double (2 * u) - 1))"
    "to_double (radius * to_double (to_double (2 * u) - 1)) \<le> radius" by simp_all
  then have "c - radius \<le> c + to_double (radius * to_double (to_double (2 * u) - 1))"
    "c + to_double (radius * to_double (to_double (2 * u) - 1)) \<le> c + radius" by simp_all
  then show ?thesis by (simp add: to_double_mono to_float32_mono)
qed

lemma yaw_bounds:
  assumes "0 \<le> u" and "u < 1"
  shows "- 180 \<le> to_float32 (to_double (180 * to_double (to_double (2 * u) - 1)))
     \<and> to_float32 (to_double (180 * to_double (to_double (2 * u) - 1))) \<le> 180"
proof -
  from unit_draw [OF assms]
  have "- 180 \<le> 180 * to_double (to_double (2 * u) - 1)"
    "180 * to_double (to_double (2 * u) - 1) \<le> 180" by simp_all
  then have "to_float32 (to_double (- 180)) \<le> to_float32 (to_double (180 * to_double (to_double (2 * u) - 1)))"
    "to_float32 (to_double (180 * to_double (to_double (2 * u) - 1))) \<le> to_float32 (to_double 180)"
    by (simp_all add: to_double_mono to_float32_mono del: to_double_small_ints)
  then show ?thesis by simp
qed

lemma starting_pts_loop_inv:
  assumes "\<And>u1 u2 u3. 0 \<le> u1 \<Longrightarrow> u1 < 1 \<Longrightarrow> 0 \<le> u2 \<Longrightarrow> u2 < 1 \<Longrightarrow> 0 \<le> u3 \<Longrightarrow> u3 < 1 \<Longrightarrow>
     P \<lparr>location =
          \<lparr>loc_x = to_float32 (to_double (loc_x c + to_double (radius * to_double (to_double (2 * u1) - 1)))),
           loc_y = to_float32 (to_double (loc_y c + to_double (radius * to_double (to_double (2 * u2) - 1)))),
           loc_z = to_float32 (loc_z c)\<rparr>,
        rotation = \<lparr>pitch = 0,
           yaw = to_float32 (to_double (180 * to_double (to_double (2 * u3) - 1))), roll = 0\<rparr>\<rparr>"
    and "unit_range R" and "\<forall>t \<in> set x0s. P t"
  shows "\<forall>t \<in> set (fst (starting_pts_loop R c n g x0s)). P t"
  using assms(3)
proof (induction n arbitrary: g x0s)
  case 0
  then show ?case by simp
next
  case (Suc n)
  let ?t = "\<lparr>location =
          \<lparr>loc_x = to_float32 (to_double (loc_x c + to_double (radius * to_double (to_double (2 * random_at R g) - 1)))),
           loc_y = to_float32 (to_double (loc_y c + to_double (radius * to_double (to_double (2 * random_at R (Suc g)) - 1)))),
           loc_z = to_float32 (loc_z c)\<rparr>,
        rotation = \<lparr>pitch = 0,
           yaw = to_float32 (to_double (180 * to_double (to_double (2 * random_at R (Suc (Suc g))) - 1))),
           roll = 0\<rparr>\<rparr>"
  from assms(2) have "P ?t"
    by (intro assms(1)) (simp_all add: unit_range_def)
  with Suc.prems have "\<forall>t \<in> set (x0s @ [?t]). P t" by simp
  from Suc.IH [OF this] show ?case by (simp add: random_def)
qed

text \<open>
  Claim C3, as the code has it. With \<open>random.random()\<close> in \<open>[0, 1)\<close>, each of the x and
  y coordinates of a generated starting point lies between the values that the code
  computes and \<open>carla.Location\<close> stores for the waypoint's coordinate minus the radius and
  plus the radius: the points lie in the axis-parallel square of half-side \<open>radius\<close>
  around the reference waypoint, up to rounding, not in the disc. The height is the
  waypoint's as stored, pitch and roll are 0, and the yaw lies in \<open>[-180, 180]\<close>, both ends
  included.
\<close>

theorem starting_pts_in_square:
  assumes "unit_range R"
    and "generate_random_starting_pts R wp num g = Inr (x0s, g')"
    and "t \<in> set x0s"
  shows "to_float32 (to_double (loc_x (location (transform wp)) - radius)) \<le> loc_x (location t)
     \<and> loc_x (location t) \<le> to_float32 (to_double (loc_x (location (transform wp)) + radius))
     \<and> to_float32 (to_double (loc_y (location (transform wp)) - radius)) \<le> loc_y (location t)
     \<and> loc_y (location t) \<le> to_float32 (to_double (loc_y (location (transform wp)) + radius))
     \<and> loc_z (location t) = to_float32 (loc_z (location (transform wp)))
     \<and> pitch (rotation t) = 0 \<and> roll (rotation t) = 0
     \<and> - 180 \<le> yaw (rotation t) \<and> yaw (rotation t) \<le> 180"
proof -
  let ?c = "location (transform wp)"
  let ?P = "\<lambda>t. to_float32 (to_double (loc_x ?c - radius)) \<le> loc_x (location t)
     \<and> loc_x (location t) \<le> to_float32 (to_double (loc_x ?c + radius))
     \<and> to_float32 (to_double (loc_y ?c - radius)) \<le> loc_y (location t)
     \<and> loc_y (location t) \<le> to_float32 (to_double (loc_y ?c + radius))
     \<and> loc_z (location t) = to_float32 (loc_z ?c)
     \<and> pitch (rotation t) = 0 \<and> roll (rotation t) = 0
     \<and> - 180 \<le> yaw (rotation t) \<and> yaw (rotation t) \<le> 180"
  from assms(2) have x0s: "x0s = fst (starting_pts_loop R ?c num g [])"
    by (simp add: generate_random_starting_pts_def split: if_splits)
  have "\<forall>t \<in> set (fst (starting_pts_loop R ?c num g [])). ?P t"
  proof (rule starting_pts_loop_inv [where P = ?P, OF _ assms(1)])
    fix u1 u2 u3 :: real
    assume u: "0 \<le> u1" "u1 < 1" "0 \<le> u2" "u2 < 1" "0 \<le> u3" "u3 < 1"
    from coordinate_bounds [OF u(1,2), of "loc_x ?c"] coordinate_bounds [OF u(3,4), of "loc_y ?c"]
      yaw_bounds [OF u(5,6)]
    show "?P \<lparr>location =
          \<lparr>loc_x = to_float32 (to_double (loc_x ?c + to_double (radius * to_double (to_double (2 * u1) - 1)))),
           loc_y = to_float32 (to_double (loc_y ?c + to_double (radius * to_double (to_double (2 * u2) - 1)))),
           loc_z = to_float32 (loc_z ?c)\<rparr>,
        rotation = \<lparr>pitch = 0,
           yaw = to_float32 (to_double (180 * to_double (to_double (2 * u3) - 1))), roll = 0\<rparr>\<rparr>"
      by simp
  qed simp
  with x0s assms(3) show ?thesis by blast
qed

subsection \<open>Two starting points around the origin\<close>

lemma to_float32_radius: "to_float32 radius = 7549747 / 2 ^ 22"
proof -
  have "round_to 24 (- 126) (8106479329266893 / 2 ^ 52) =
      of_int (rne (8106479329266893 / 2 ^ 52 / 2 powi (max 0 (- 126) - int 24 + 1)))
        * 2 powi (max 0 (- 126) - int 24 + 1)"
    by (rule round_to_expo) simp_all
  also have "\<dots> = 7549747 / 2 ^ 22"
    by (simp add: rne_def Let_def power_int_minus field_simps)
  finally show ?thesis by (simp add: radius_value to_float32_def)
qed

lemma corner_coordinate:
  "to_float32 (to_double (0 + to_double (radius * to_double (to_double (2 * 0) - 1))))
     = - (7549747 / 2 ^ 22)"
  by (simp add: to_double_radius to_float32_minus to_float32_radius)

lemma corner_yaw: "to_float32 (to_double (180 * to_double (to_double (2 * 0) - 1))) = - 180"
  by simp

lemma late_yaw:
  "to_float32 (to_double (180 * to_double (to_double (2 * (1 - 1 / 2 ^ 30)) - 1))) = 180"
proof -
  have a: "to_double (2 * (1 - 1 / 2 ^ 30)) = 2 - 1 / 2 ^ 29"
    unfolding to_double_def
    by (rule trans [OF round_to_exact [where m = "2 ^ 30 - 1" and k = "- 29"]])
      (simp_all add: power_int_minus field_simps)
  have b: "to_double (2 - 1 / 2 ^ 29 - 1) = 1 - 1 / 2 ^ 29"
    unfolding to_double_def
    by (rule trans [OF round_to_exact [where m = "2 ^ 29 - 1" and k = "- 29"]])
      (simp_all add: power_int_minus field_simps)
  have c: "to_double (180 * (1 - 1 / 2 ^ 29)) = 180 - 45 / 2 ^ 27"
    unfolding to_double_def
    by (rule trans [OF round_to_exact [where m = "45 * (2 ^ 29 - 1)" and k = "- 27"]])
      (simp_all add: power_int_minus field_simps)
  have "round_to 24 (- 126) (180 - 45 / 2 ^ 27) =
      of_int (rne ((180 - 45 / 2 ^ 27) / 2 powi (max 7 (- 126) - int 24 + 1)))
        * 2 powi (max 7 (- 126) - int 24 + 1)"
    by (rule round_to_expo) simp_all
  also have "\<dots> = 180"
    by (simp add: rne_def Let_def power_int_minus field_simps)
  finally have d: "to_float32 (180 - 45 / 2 ^ 27) = 180" by (simp add: to_float32_def)
  show ?thesis by (simp only: a b c d)
qed

lemma corner_pts:
  "generate_random_starting_pts zero_draws (road_wp 3.5 0) 1 0 = Inr ([corner_pt], 3)"
proof -
  have "\<not> radius < lane_width (road_wp 3.5 0) / 2" by (simp add: radius_value road_wp_def)
  moreover have "starting_pts_loop zero_draws (location (transform (road_wp 3.5 0))) (Suc 0) 0 []
      = ([corner_pt], 3)"
    by (simp add: random_def zero_draws_def road_wp_def corner_pt_def numeral_3_eq_3
        to_double_radius to_float32_minus to_float32_radius del: power_numeral)
  ultimately show ?thesis by (simp add: generate_random_starting_pts_def)
qed

lemma turned_pts:
  "generate_random_starting_pts late_yaw_draws (road_wp 3.5 0) 1 0 = Inr ([turned_pt], 3)"
proof -
  have "\<not> radius < lane_width (road_wp 3.5 0) / 2" by (simp add: radius_value road_wp_def)
  moreover have "starting_pts_loop late_yaw_draws (location (transform (road_wp 3.5 0))) (Suc 0) 0 []
      = ([turned_pt], 3)"
    using late_yaw
    by (simp add: random_def late_yaw_draws_def road_wp_def turned_pt_def numeral_3_eq_3
        numeral_2_eq_2 to_double_radius to_float32_minus to_float32_radius del: power_numeral)
  ultimately show ?thesis by (simp add: generate_random_starting_pts_def)
qed

lemma unit_range_fixtures: "unit_range zero_draws" "unit_range late_yaw_draws"
  by (simp_all add: unit_range_def zero_draws_def late_yaw_draws_def)

theorem starting_pts_in_square_witness:
  "unit_range late_yaw_draws
   \<and> generate_random_starting_pts late_yaw_draws (road_wp 3.5 0) 1 0 = Inr ([turned_pt], 3)
   \<and> turned_pt \<in> set [turned_pt]
   \<and> to_float32 (to_double (loc_x (location (transform (road_wp 3.5 0))) - radius))
       \<le> loc_x (location turned_pt)
   \<and> loc_x (location turned_pt)
       \<le> to_float32 (to_double (loc_x (location (transform (road_wp 3.5 0))) + radius))
   \<and> - 180 \<le> yaw (rotation turned_pt) \<and> yaw (rotation turned_pt) \<le> 180"
proof -
  have m: "turned_pt \<in> set [turned_pt]" by simp
  from starting_pts_in_square [OF unit_range_fixtures(2) turned_pts m]
    unit_range_fixtures(2) turned_pts m
  show ?thesis by simp
qed

text \<open>
  Claim C3 as stated fails in both parts. When the two coordinate draws return 0 the
  generated point is the corner of the square, further than \<open>radius\<close> from the waypoint.
  When the yaw draw is the double \<open>1 - 2^-30\<close> the yaw is 180 once \<open>carla.Rotation\<close> has
  stored it, and so not below 180.
\<close>

theorem starting_pts_outside_disc:
  "unit_range zero_draws
   \<and> generate_random_starting_pts zero_draws (road_wp 3.5 0) 1 0 = Inr ([corner_pt], 3)
   \<and> radius < planar_distance (location corner_pt) (location (transform (road_wp 3.5 0)))
   \<and> unit_range late_yaw_draws
   \<and> generate_random_starting_pts late_yaw_draws (road_wp 3.5 0) 1 0 = Inr ([turned_pt], 3)
   \<and> \<not> yaw (rotation turned_pt) < 180"
proof -
  have "(8106479329266893 / 2 ^ 52 :: real)\<^sup>2 < (- (7549747 / 2 ^ 22))\<^sup>2 + (- (7549747 / 2 ^ 22))\<^sup>2"
    by (simp add: power2_eq_square)
  moreover have "(0::real) \<le> 8106479329266893 / 2 ^ 52" by simp
  ultimately have "(8106479329266893 / 2 ^ 52 :: real)
      < sqrt ((- (7549747 / 2 ^ 22))\<^sup>2 + (- (7549747 / 2 ^ 22))\<^sup>2)"
    by (intro real_less_rsqrt)
  then have "radius < planar_distance (location corner_pt) (location (transform (road_wp 3.5 0)))"
    by (simp add: planar_distance_def radius_value corner_pt_def road_wp_def del: power_numeral)
  moreover have "\<not> yaw (rotation turned_pt) < 180" by (simp add: turned_pt_def)
  ultimately show ?thesis using unit_range_fixtures corner_pts turned_pts by simp
qed

section \<open>Properties of one transition\<close>

subsection \<open>The lookahead window\<close>

lemma future_wps_loop_grows:
  "future_wps_loop S R j fw g = Inr (fw', g') \<Longrightarrow>
     length fw' = length fw + j \<and> take (length fw) fw' = fw \<and> g' = g + j"
proof (induction j arbitrary: fw g)
  case 0
  then show ?case by simp
next
  case (Suc j)
  from Suc.prems obtain wp g1 where
    c: "choice R g (wp_next S (last fw) sampling_radius) = Inr (wp, g1)"
    and r: "future_wps_loop S R j (fw @ [wp]) g1 = Inr (fw', g')"
    by (auto split: if_splits sum.splits)
  from c have g1: "g1 = Suc g" by (auto simp: choice_def split: if_splits)
  from Suc.IH [OF r] have "length fw' = length fw + Suc j"
    and t: "take (Suc (length fw)) fw' = fw @ [wp]" and "g' = g1 + j" by simp_all
  moreover have "take (length fw) fw' = fw"
  proof -
    have "take (length fw) (take (Suc (length fw)) fw') = fw" by (simp only: t) simp
    then show ?thesis by (simp add: min_def)
  qed
  ultimately show ?case using g1 by simp
qed

lemma future_wps_loop_first:
  assumes "future_wps_loop S R j [cur_wp] g = Inr (fw', g')"
  shows "length fw' = j + 1 \<and> fw' \<noteq> [] \<and> hd fw' = cur_wp"
proof -
  from future_wps_loop_grows [OF assms]
  have l: "length fw' = j + 1" and t: "take 1 fw' = [cur_wp]" by simp_all
  from l have ne: "fw' \<noteq> []" by auto
  with t have "hd fw' = cur_wp" by (cases fw') simp_all
  with l ne show ?thesis by simp
qed

lemma future_wps_loop_total:
  assumes "\<forall>wp. wp_next S wp sampling_radius \<noteq> []" and "fw \<noteq> []"
  shows "\<exists>fw' g'. future_wps_loop S R j fw g = Inr (fw', g')"
  using assms(2)
proof (induction j arbitrary: fw g)
  case 0
  then show ?case by simp
next
  case (Suc j)
  from assms(1) obtain wp g1 where
    c: "choice R g (wp_next S (last fw) sampling_radius) = Inr (wp, g1)"
    by (simp add: choice_def)
  have "fw @ [wp] \<noteq> []" by simp
  from Suc.IH [OF this] obtain fw' g' where
    "future_wps_loop S R j (fw @ [wp]) g1 = Inr (fw', g')" by blast
  with c Suc.prems show ?case by simp
qed

subsection \<open>The row\<close>

lemma length_flatten_future_wps_np:
  "length (flatten (future_wps_np fw cur_wp)) = 2 * length fw"
  by (induction fw) (simp_all add: flatten_def future_wps_np_def)

lemma length_transition_row:
  "length (transition_row c p v p' v' cur_wp fw) = 25 + 2 * length fw"
  by (simp add: transition_row_def transform_to_arr_def length_flatten_future_wps_np)

lemma flatten_future_wps_np_Cons:
  "flatten (future_wps_np (wp # fw) cur_wp) =
     [loc_x (location (transform wp)) - loc_x (location (transform cur_wp)),
      loc_y (location (transform wp)) - loc_y (location (transform cur_wp))]
     @ flatten (future_wps_np fw cur_wp)"
  by (simp add: flatten_def future_wps_np_def)

text \<open>The 23 entries before the lookahead, by position.\<close>

lemma transition_row_prefix:
  "take 23 (transition_row c p v p' v' cur_wp fw) =
     [throttle c, steer c, brake c,
      loc_x (location p), loc_y (location p), loc_z (location p),
      pitch (rotation p), yaw (rotation p), roll (rotation p),
      vec_x v, vec_y v, vec_z v,
      loc_x (location p'), loc_y (location p'), loc_z (location p'),
      pitch (rotation p'), yaw (rotation p'), roll (rotation p'),
      vec_x v', vec_y v', vec_z v',
      loc_x (location p) - loc_x (location (transform cur_wp)),
      loc_y (location p) - loc_y (location (transform cur_wp))]"
  by (simp add: transition_row_def transform_to_arr_def)

lemma transition_row_split:
  "transition_row c p v p' v' cur_wp fw =
     take 23 (transition_row c p v p' v' cur_wp fw)
     @ flatten (future_wps_np fw cur_wp)
     @ [loc_x (location p') - loc_x (location (transform cur_wp)),
        loc_y (location p') - loc_y (location (transform cur_wp))]"
  by (simp add: transition_row_def transform_to_arr_def)

lemma length_take_23:
  "length (take 23 (transition_row c p v p' v' cur_wp fw)) = 23"
  by (simp add: length_transition_row)

lemma transition_row_lookahead:
  "take (2 * length fw) (drop 23 (transition_row c p v p' v' cur_wp fw)) =
     flatten (future_wps_np fw cur_wp)"
proof -
  let ?A = "take 23 (transition_row c p v p' v' cur_wp fw)"
  let ?F = "flatten (future_wps_np fw cur_wp)"
  let ?B = "[loc_x (location p') - loc_x (location (transform cur_wp)),
        loc_y (location p') - loc_y (location (transform cur_wp))]"
  have "drop 23 (transition_row c p v p' v' cur_wp fw) = drop (length ?A) (?A @ ?F @ ?B)"
    by (simp only: length_take_23 transition_row_split [symmetric])
  also have "\<dots> = ?F @ ?B" by (simp only: drop_append) simp
  finally show ?thesis by (simp add: length_flatten_future_wps_np)
qed

lemma transition_row_suffix:
  "drop (23 + 2 * length fw) (transition_row c p v p' v' cur_wp fw) =
     [loc_x (location p') - loc_x (location (transform cur_wp)),
      loc_y (location p') - loc_y (location (transform cur_wp))]"
proof -
  let ?A = "take 23 (transition_row c p v p' v' cur_wp fw)"
  let ?F = "flatten (future_wps_np fw cur_wp)"
  let ?B = "[loc_x (location p') - loc_x (location (transform cur_wp)),
        loc_y (location p') - loc_y (location (transform cur_wp))]"
  have "drop (23 + 2 * length fw) (transition_row c p v p' v' cur_wp fw)
      = drop (length (?A @ ?F)) ((?A @ ?F) @ ?B)"
    using transition_row_split [of c p v p' v' cur_wp fw]
    by (simp add: length_take_23 length_flatten_future_wps_np del: length_take)
  also have "\<dots> = ?B" by (simp only: drop_append) simp
  finally show ?thesis .
qed

subsection \<open>One iteration\<close>

lemma tick_body_Normal:
  assumes "tick_body S R hz st = Normal st'"
  shows "\<exists>fw. future_wps_loop S R hz [pre_wp S st] (rng st) = Inr (fw, rng st')
     \<and> outfile st' = outfile st @
         [transition_row (get_control S (pre_world S (world st))) (pre_pose S st)
            (get_velocity S (pre_world S (world st))) (post_pose S st)
            (get_velocity S (post_world S (world st))) (pre_wp S st) fw]
     \<and> world st' = render S (post_world S (world st))
     \<and> wps st' = wps st
     \<and> \<not> fst (parse_events S (world st))
     \<and> fst (world_tick S (snd (parse_events S (world st))))"
  using assms
  by (auto simp: tick_body_def Let_def pre_wp_def pre_pose_def post_pose_def pre_world_def
      post_world_def writerow_def split: prod.splits if_splits sum.splits)

lemma tick_body_other:
  assumes "tick_body S R hz st = out" and "\<not> completed out"
  shows "outfile (final_state out) = outfile st \<and> wps (final_state out) = wps st"
  using assms
  by (auto simp: tick_body_def Let_def split: prod.splits if_splits sum.splits)

section \<open>The rows written by the loops\<close>

lemma transition_row_window:
  assumes "length fw = hz + 1" and "hd fw = cur_wp"
  shows "window_row hz (transition_row c p v p' v' cur_wp fw)"
proof -
  from assms obtain rest where fw: "fw = cur_wp # rest" by (cases fw) simp_all
  have "transition_row c p v p' v' cur_wp fw ! 23 = 0"
    and "transition_row c p v p' v' cur_wp fw ! 24 = 0"
    by (simp_all add: fw transition_row_def transform_to_arr_def flatten_future_wps_np_Cons)
  with assms(1) show ?thesis
    by (simp add: window_row_def length_transition_row)
qed

lemma tick_body_window_row:
  assumes "tick_body S R hz st = Normal st'"
  shows "\<exists>row. outfile st' = outfile st @ [row] \<and> window_row hz row"
proof -
  from tick_body_Normal [OF assms] obtain fw where
    f: "future_wps_loop S R hz [pre_wp S st] (rng st) = Inr (fw, rng st')"
    and o: "outfile st' = outfile st @
         [transition_row (get_control S (pre_world S (world st))) (pre_pose S st)
            (get_velocity S (pre_world S (world st))) (post_pose S st)
            (get_velocity S (post_world S (world st))) (pre_wp S st) fw]"
    by blast
  from future_wps_loop_first [OF f] have "length fw = hz + 1" "hd fw = pre_wp S st"
    by simp_all
  then have "window_row hz (transition_row (get_control S (pre_world S (world st))) (pre_pose S st)
            (get_velocity S (pre_world S (world st))) (post_pose S st)
            (get_velocity S (post_world S (world st))) (pre_wp S st) fw)"
    by (rule transition_row_window)
  with o show ?thesis by blast
qed

lemma stepping_rows:
  "stepping S R hz budget fuel init st = Some out \<Longrightarrow>
     (\<exists>new. outfile (final_state out) = outfile st @ new \<and> (\<forall>row \<in> set new. window_row hz row))
     \<and> wps (final_state out) = wps st"
proof (induction fuel arbitrary: st)
  case 0
  then show ?case by simp
next
  case (Suc fuel)
  show ?case
  proof (cases "frame_number S (world st) - init < budget")
    case False
    with Suc.prems have "out = Normal st" by simp
    then show ?thesis by simp
  next
    case True
    show ?thesis
    proof (cases "completed (tick_body S R hz st)")
      case False
      with True Suc.prems have "out = tick_body S R hz st"
        by (cases "tick_body S R hz st") simp_all
      with False tick_body_other [of S R hz st out] show ?thesis by simp
    next
      case c: True
      then obtain st1 where t: "tick_body S R hz st = Normal st1"
        by (cases "tick_body S R hz st") simp_all
      with True Suc.prems have "stepping S R hz budget fuel init st1 = Some out" by simp
      from Suc.IH [OF this] obtain new where
        n: "outfile (final_state out) = outfile st1 @ new" "\<forall>row \<in> set new. window_row hz row"
        and w: "wps (final_state out) = wps st1" by blast
      from tick_body_window_row [OF t] obtain row where
        r: "outfile st1 = outfile st @ [row]" "window_row hz row" by blast
      from tick_body_Normal [OF t] have "wps st1 = wps st" by blast
      with n r w have "outfile (final_state out) = outfile st @ (row # new)"
        "\<forall>r \<in> set (row # new). window_row hz r" "wps (final_state out) = wps st"
        by simp_all
      then show ?thesis by blast
    qed
  qed
qed

lemma run_episode_rows:
  assumes "run_episode S R hz budget fuel x0 st = Some out"
  shows "(\<exists>new. outfile (final_state out) = outfile st @ new \<and> (\<forall>row \<in> set new. window_row hz row))
     \<and> wps (final_state out) = wps st"
proof -
  obtain v g1 where gv: "generate_random_velocity R 30 (rng st) = (v, g1)"
    by (cases "generate_random_velocity R 30 (rng st)")
  let ?w3 = "wait_for_tick S (set_velocity S v (set_transform S x0 (world st)))"
  from assms gv
  have "stepping S R hz budget fuel (frame_number S ?w3) (st\<lparr>world := ?w3, rng := g1\<rparr>) = Some out"
    by (simp add: run_episode_def Let_def)
  from stepping_rows [OF this] show ?thesis by simp
qed

lemma episodes_rows:
  "episodes S R hz budget fuel x0s st = Some out \<Longrightarrow>
     (\<exists>new. outfile (final_state out) = outfile st @ new \<and> (\<forall>row \<in> set new. window_row hz row))
     \<and> wps (final_state out) = wps st"
proof (induction x0s arbitrary: st)
  case Nil
  then show ?case by auto
next
  case (Cons x0 x0s)
  from Cons.prems obtain o1 where e: "run_episode S R hz budget fuel x0 st = Some o1"
    by (cases "run_episode S R hz budget fuel x0 st") simp_all
  show ?case
  proof (cases "completed o1")
    case False
    with e Cons.prems have "out = o1" by (cases o1) simp_all
    with run_episode_rows [OF e] show ?thesis by simp
  next
    case True
    then obtain st1 where o1: "o1 = Normal st1" by (cases o1) simp_all
    with e Cons.prems have "episodes S R hz budget fuel x0s st1 = Some out" by simp
    from Cons.IH [OF this] obtain new where
      n: "outfile (final_state out) = outfile st1 @ new" "\<forall>row \<in> set new. window_row hz row"
      and w: "wps (final_state out) = wps st1" by blast
    from run_episode_rows [OF e] o1 obtain new1 where
      n1: "outfile st1 = outfile st @ new1" "\<forall>row \<in> set new1. window_row hz row"
      and w1: "wps st1 = wps st" by auto
    from n n1 w w1 have "outfile (final_state out) = outfile st @ (new1 @ new)"
      "\<forall>r \<in> set (new1 @ new). window_row hz r" "wps (final_state out) = wps st"
      by auto
    then show ?thesis by blast
  qed
qed


lemma path_loop_rows:
  "path_loop S R hz budget fuel num n i st = Some out \<Longrightarrow>
     \<exists>new. outfile (final_state out) = outfile st @ new \<and> (\<forall>row \<in> set new. window_row hz row)"
proof (induction n arbitrary: i st)
  case 0
  then show ?case by auto
next
  case (Suc n)
  show ?case
  proof (cases "length (wps st) \<le> i")
    case True
    with Suc.prems show ?thesis by auto
  next
    case False
    show ?thesis
    proof (cases "choice R (rng st) (wp_next S (wps st ! i) sampling_radius)")
      case (Inl e)
      with False Suc.prems show ?thesis by auto
    next
      case (Inr p)
      then obtain wp g1 where c: "choice R (rng st) (wp_next S (wps st ! i) sampling_radius) = Inr (wp, g1)"
        by (cases p) simp
      let ?st1 = "st\<lparr>rng := g1, wps := wps st @ [wp]\<rparr>"
      show ?thesis
      proof (cases "generate_random_starting_pts R wp num g1")
        case (Inl e)
        with False c Suc.prems show ?thesis by auto
      next
        case (Inr q)
        then obtain x0s g2 where g: "generate_random_starting_pts R wp num g1 = Inr (x0s, g2)"
          by (cases q) simp
        from False c g Suc.prems obtain o1 where
          e: "episodes S R hz budget fuel x0s (?st1\<lparr>rng := g2\<rparr>) = Some o1"
          by (cases "episodes S R hz budget fuel x0s (?st1\<lparr>rng := g2\<rparr>)") (simp_all add: Let_def)
        from episodes_rows [OF e] obtain new1 where
          n1: "outfile (final_state o1) = outfile st @ new1" "\<forall>row \<in> set new1. window_row hz row"
          by auto
        show ?thesis
        proof (cases "completed o1")
          case False
          with \<open>\<not> length (wps st) \<le> i\<close> c g e Suc.prems have "out = o1"
            by (cases o1) (simp_all add: Let_def)
          with n1 show ?thesis by blast
        next
          case True
          then obtain st2 where o1: "o1 = Normal st2" by (cases o1) simp_all
          with \<open>\<not> length (wps st) \<le> i\<close> c g e Suc.prems
          have "path_loop S R hz budget fuel num n (Suc i) st2 = Some out"
            by (simp add: Let_def)
          from Suc.IH [OF this] obtain new where
            n: "outfile (final_state out) = outfile st2 @ new" "\<forall>row \<in> set new. window_row hz row"
            by blast
          from n n1 o1 have "outfile (final_state out) = outfile st @ (new1 @ new)"
            "\<forall>r \<in> set (new1 @ new). window_row hz r" by auto
          then show ?thesis by blast
        qed
      qed
    qed
  qed
qed

lemma game_loop_rows:
  assumes "game_loop S R fuel w0 g0 file0 = Some out"
  shows "\<exists>new. outfile (final_state out) = file0 @ new \<and> (\<forall>row \<in> set new. window_row horizon row)"
  using path_loop_rows [of S R horizon frame_budget fuel num_init_pt num_wp 0
      "\<lparr>world = w0, rng = g0, outfile = file0, wps = [get_waypoint S start_loc]\<rparr>" out] assms
  by (simp add: game_loop_def)

section \<open>Frames and rows of an episode\<close>

lemma tick_body_frames:
  assumes "wait_advances S" and "tick_body S R hz st = Normal st'"
  shows "frame_number S (world st) + 2 \<le> frame_number S (world st')"
proof -
  let ?w1 = "snd (parse_events S (world st))"
  let ?w2 = "snd (world_tick S ?w1)"
  from assms(1) have k: "frame_number S ?w2 = frame_number S (world st)"
    by (simp add: wait_advances_def frames_kept_def)
  from assms(1) have "frame_number S ?w2 + 1 \<le> frame_number S (wait_for_tick S ?w2)"
    "frame_number S (wait_for_tick S ?w2) + 1 \<le> frame_number S (wait_for_tick S (wait_for_tick S ?w2))"
    by (simp_all add: wait_advances_def)
  with k have "frame_number S (world st) + 2 \<le> frame_number S (post_world S (world st))"
    by (simp add: post_world_def pre_world_def)
  moreover from assms(1) have "frame_number S (render S (post_world S (world st)))
      = frame_number S (post_world S (world st))"
    by (simp add: wait_advances_def frames_kept_def)
  moreover from tick_body_Normal [OF assms(2)]
  have "world st' = render S (post_world S (world st))" by blast
  ultimately show ?thesis by simp
qed

lemma tick_body_frames_exact:
  assumes "one_frame_per_wait S" and "tick_body S R hz st = Normal st'"
  shows "frame_number S (world st') = frame_number S (world st) + 2"
proof -
  from tick_body_Normal [OF assms(2)]
  have "world st' = render S (post_world S (world st))" by blast
  with assms(1) show ?thesis
    by (simp add: one_frame_per_wait_def frames_kept_def post_world_def pre_world_def)
qed

lemma tick_body_uninterrupted:
  assumes "uninterrupted S"
  shows "\<exists>st'. tick_body S R hz st = Normal st'"
proof -
  obtain q w1 where p: "parse_events S (world st) = (q, w1)"
    by (cases "parse_events S (world st)")
  obtain a w2 where t: "world_tick S w1 = (a, w2)"
    by (cases "world_tick S w1")
  from assms have "\<not> fst (parse_events S (world st))" "fst (world_tick S w1)"
    by (simp_all add: uninterrupted_def)
  with p t have q: "\<not> q" and a: "a" by simp_all
  let ?cur_wp = "get_waypoint S (location (get_transform S (wait_for_tick S w2)))"
  from assms have "\<forall>wp. wp_next S wp sampling_radius \<noteq> []" by (simp add: uninterrupted_def)
  from future_wps_loop_total [OF this, of "[?cur_wp]" R hz "rng st"]
  obtain fw g' where "future_wps_loop S R hz [?cur_wp] (rng st) = Inr (fw, g')"
    by auto
  with p t q a show ?thesis
    by (simp add: tick_body_def Let_def)
qed

lemma stepping_bound:
  assumes "wait_advances S"
  shows "stepping S R hz budget fuel init st = Some out \<Longrightarrow>
     2 * int (rows_of out) \<le> 2 * int (length (outfile st))
        + max 0 (budget - (frame_number S (world st) - init) + 1)"
proof (induction fuel arbitrary: st)
  case 0
  then show ?case by simp
next
  case (Suc fuel)
  show ?case
  proof (cases "frame_number S (world st) - init < budget")
    case False
    with Suc.prems have "out = Normal st" by simp
    then show ?thesis by (simp add: rows_of_def)
  next
    case True
    show ?thesis
    proof (cases "completed (tick_body S R hz st)")
      case False
      with True Suc.prems have "out = tick_body S R hz st"
        by (cases "tick_body S R hz st") simp_all
      with False tick_body_other [of S R hz st out] show ?thesis by (simp add: rows_of_def)
    next
      case c: True
      then obtain st1 where t: "tick_body S R hz st = Normal st1"
        by (cases "tick_body S R hz st") simp_all
      with True Suc.prems have "stepping S R hz budget fuel init st1 = Some out" by simp
      from Suc.IH [OF this] have
        "2 * int (rows_of out) \<le> 2 * int (length (outfile st1))
           + max 0 (budget - (frame_number S (world st1) - init) + 1)" .
      moreover from tick_body_window_row [OF t]
      have "length (outfile st1) = length (outfile st) + 1" by auto
      moreover note tick_body_frames [OF assms t] True
      ultimately show ?thesis by simp
    qed
  qed
qed

lemma stepping_exact:
  assumes "one_frame_per_wait S" and "uninterrupted S"
  shows "nat ((budget - (frame_number S (world st) - init) + 1) div 2) < fuel \<Longrightarrow>
     \<exists>st'. stepping S R hz budget fuel init st = Some (Normal st')
        \<and> length (outfile st') = length (outfile st)
             + nat ((budget - (frame_number S (world st) - init) + 1) div 2)"
proof (induction fuel arbitrary: st)
  case 0
  then show ?case by simp
next
  case (Suc fuel)
  show ?case
  proof (cases "frame_number S (world st) - init < budget")
    case False
    then have "nat ((budget - (frame_number S (world st) - init) + 1) div 2) = 0" by simp
    with False show ?thesis by simp
  next
    case True
    from tick_body_uninterrupted [OF assms(2)] obtain st1 where
      t: "tick_body S R hz st = Normal st1" by blast
    from tick_body_frames_exact [OF assms(1) t]
    have f: "frame_number S (world st1) = frame_number S (world st) + 2" .
    from tick_body_window_row [OF t]
    have l: "length (outfile st1) = length (outfile st) + 1" by auto
    from True f have n: "nat ((budget - (frame_number S (world st) - init) + 1) div 2)
        = Suc (nat ((budget - (frame_number S (world st1) - init) + 1) div 2))"
      by simp
    with Suc.prems have "nat ((budget - (frame_number S (world st1) - init) + 1) div 2) < fuel"
      by simp
    from Suc.IH [OF this] obtain st' where
      "stepping S R hz budget fuel init st1 = Some (Normal st')"
      "length (outfile st') = length (outfile st1)
             + nat ((budget - (frame_number S (world st1) - init) + 1) div 2)" by blast
    with True t l n show ?thesis by simp
  qed
qed

section \<open>Runs that complete\<close>

lemma run_episode_stepping:
  "\<exists>st0. run_episode S R hz budget fuel x0 st
       = stepping S R hz budget fuel (frame_number S (world st0)) st0
     \<and> outfile st0 = outfile st \<and> wps st0 = wps st"
proof -
  obtain v g1 where gv: "generate_random_velocity R 30 (rng st) = (v, g1)"
    by (cases "generate_random_velocity R 30 (rng st)")
  let ?w3 = "wait_for_tick S (set_velocity S v (set_transform S x0 (world st)))"
  from gv have "run_episode S R hz budget fuel x0 st
      = stepping S R hz budget fuel (frame_number S (world (st\<lparr>world := ?w3, rng := g1\<rparr>)))
          (st\<lparr>world := ?w3, rng := g1\<rparr>)"
    by (simp add: run_episode_def Let_def)
  moreover have "outfile (st\<lparr>world := ?w3, rng := g1\<rparr>) = outfile st"
    "wps (st\<lparr>world := ?w3, rng := g1\<rparr>) = wps st" by simp_all
  ultimately show ?thesis by blast
qed

lemma run_episode_bound:
  assumes "wait_advances S" and "run_episode S R hz budget fuel x0 st = Some out"
  shows "2 * int (rows_of out) \<le> 2 * int (length (outfile st)) + max 0 (budget + 1)"
proof -
  from run_episode_stepping [of S R hz budget fuel x0 st] assms(2) obtain st0 where
    "stepping S R hz budget fuel (frame_number S (world st0)) st0 = Some out"
    "outfile st0 = outfile st" by auto
  with stepping_bound [OF assms(1), of R hz budget fuel "frame_number S (world st0)" st0 out]
  show ?thesis by simp
qed

lemma run_episode_exact:
  assumes "one_frame_per_wait S" and "uninterrupted S" and "nat ((budget + 1) div 2) < fuel"
  shows "\<exists>st'. run_episode S R hz budget fuel x0 st = Some (Normal st')
     \<and> length (outfile st') = length (outfile st) + nat ((budget + 1) div 2)"
proof -
  from run_episode_stepping [of S R hz budget fuel x0 st] obtain st0 where
    r: "run_episode S R hz budget fuel x0 st
       = stepping S R hz budget fuel (frame_number S (world st0)) st0"
    and o: "outfile st0 = outfile st" by auto
  from assms(3)
  have "nat ((budget - (frame_number S (world st0) - frame_number S (world st0)) + 1) div 2) < fuel"
    by simp
  from stepping_exact [OF assms(1,2) this, of R hz] r o show ?thesis by simp
qed

lemma episodes_complete:
  assumes "one_frame_per_wait S" and "uninterrupted S" and "nat ((budget + 1) div 2) < fuel"
  shows "\<exists>st'. episodes S R hz budget fuel x0s st = Some (Normal st')
     \<and> length (outfile st') = length (outfile st) + length x0s * nat ((budget + 1) div 2)
     \<and> wps st' = wps st"
proof (induction x0s arbitrary: st)
  case Nil
  then show ?case by simp
next
  case (Cons x0 x0s)
  from run_episode_exact [OF assms, of R hz x0 st] obtain st1 where
    e: "run_episode S R hz budget fuel x0 st = Some (Normal st1)"
    and l: "length (outfile st1) = length (outfile st) + nat ((budget + 1) div 2)" by blast
  from run_episode_rows [OF e] have w: "wps st1 = wps st" by simp
  from Cons.IH [of st1] obtain st' where
    "episodes S R hz budget fuel x0s st1 = Some (Normal st')"
    "length (outfile st') = length (outfile st1) + length x0s * nat ((budget + 1) div 2)"
    "wps st' = wps st1" by blast
  with e l w show ?case by simp
qed

lemma choice_member:
  assumes "choice R g xs = Inr (x, g')"
  shows "x \<in> set xs \<and> g' = Suc g"
  using assms by (auto simp: choice_def split: if_splits)

lemma path_loop_complete:
  assumes "one_frame_per_wait S" and "uninterrupted S" and "lanes_pass S"
    and "nat ((budget + 1) div 2) < fuel"
  shows "length (wps st) = i + 1 \<Longrightarrow>
     \<exists>st'. path_loop S R hz budget fuel num n i st = Some (Normal st')
       \<and> length (outfile st') = length (outfile st) + n * (num * nat ((budget + 1) div 2))"
proof (induction n arbitrary: i st)
  case 0
  then show ?case by simp
next
  case (Suc n)
  from assms(2) have ne: "wp_next S (wps st ! i) sampling_radius \<noteq> []"
    by (simp add: uninterrupted_def)
  then obtain wp g1 where c: "choice R (rng st) (wp_next S (wps st ! i) sampling_radius) = Inr (wp, g1)"
    by (simp add: choice_def)
  from choice_member [OF c] assms(3) have "\<not> radius < lane_width wp / 2"
    by (auto simp: lanes_pass_def)
  with starting_pts_loop_length [of R "location (transform wp)" num g1 "[]"]
  obtain x0s g2 where g: "generate_random_starting_pts R wp num g1 = Inr (x0s, g2)"
    and lx: "length x0s = num"
    by (cases "starting_pts_loop R (location (transform wp)) num g1 []")
      (simp add: generate_random_starting_pts_def)
  let ?st1 = "st\<lparr>rng := g1, wps := wps st @ [wp]\<rparr>"
  from episodes_complete [OF assms(1,2,4), of R hz x0s "?st1\<lparr>rng := g2\<rparr>"] obtain st2 where
    e: "episodes S R hz budget fuel x0s (?st1\<lparr>rng := g2\<rparr>) = Some (Normal st2)"
    and l2: "length (outfile st2) = length (outfile st) + length x0s * nat ((budget + 1) div 2)"
    and w2: "wps st2 = wps st @ [wp]" by auto
  from w2 Suc.prems have "length (wps st2) = Suc i + 1" by simp
  from Suc.IH [OF this] obtain st' where
    "path_loop S R hz budget fuel num n (Suc i) st2 = Some (Normal st')"
    "length (outfile st') = length (outfile st2) + n * (num * nat ((budget + 1) div 2))"
    by blast
  with Suc.prems c g e l2 lx show ?case by (simp add: Let_def)
qed

lemma game_loop_complete:
  assumes "one_frame_per_wait S" and "uninterrupted S" and "lanes_pass S" and "200 < fuel"
  shows "\<exists>st'. game_loop S R fuel w0 g0 file0 = Some (Normal st')
     \<and> length (outfile st') = length file0 + num_wp * (num_init_pt * 200)"
proof -
  from assms(4) have "nat ((frame_budget + 1) div 2) < fuel" by (simp add: frame_budget_def)
  from path_loop_complete [OF assms(1,2,3) this, of
      "\<lparr>world = w0, rng = g0, outfile = file0, wps = [get_waypoint S start_loc]\<rparr>" 0 R horizon
      num_init_pt num_wp]
  show ?thesis by (simp add: game_loop_def frame_budget_def)
qed

section \<open>The reference path\<close>

lemma take_snoc_parts:
  assumes "take (Suc (Suc i)) ws = old @ [wp]" and "length old = Suc i"
  shows "take (Suc i) ws = old \<and> ws ! Suc i = wp \<and> ws ! i = old ! i \<and> Suc (Suc i) \<le> length ws"
proof -
  from assms have len: "Suc (Suc i) \<le> length ws"
    by (metis length_append_singleton length_take min.cobounded1)
  have "take (Suc i) (take (Suc (Suc i)) ws) = old"
    by (simp only: assms(1)) (simp add: assms(2))
  then have t: "take (Suc i) ws = old" by (simp add: min_def)
  have "ws ! Suc i = take (Suc (Suc i)) ws ! Suc i" by simp
  also have "\<dots> = wp" by (simp only: assms(1)) (simp add: nth_append assms(2))
  finally have a: "ws ! Suc i = wp" .
  have "ws ! i = take (Suc i) ws ! i" by simp
  with t have "ws ! i = old ! i" by simp
  with t a len show ?thesis by simp
qed

lemma path_loop_path:
  "path_loop S R hz budget fuel num n i st = Some out \<Longrightarrow> length (wps st) = Suc i \<Longrightarrow>
     take (Suc i) (wps (final_state out)) = wps st
     \<and> length (wps (final_state out)) \<le> Suc i + n
     \<and> (completed out \<longrightarrow> length (wps (final_state out)) = Suc i + n)
     \<and> (\<forall>k. i \<le> k \<and> Suc k < length (wps (final_state out)) \<longrightarrow>
           wps (final_state out) ! Suc k
             \<in> set (wp_next S (wps (final_state out) ! k) sampling_radius))"
proof (induction n arbitrary: i st)
  case 0
  then show ?case by auto
next
  case (Suc n)
  from Suc.prems(2) have li: "\<not> length (wps st) \<le> i" by simp
  show ?case
  proof (cases "choice R (rng st) (wp_next S (wps st ! i) sampling_radius)")
    case (Inl e)
    with li Suc.prems show ?thesis by auto
  next
    case (Inr p)
    then obtain wp g1 where c: "choice R (rng st) (wp_next S (wps st ! i) sampling_radius) = Inr (wp, g1)"
      by (cases p) simp
    from choice_member [OF c] have m: "wp \<in> set (wp_next S (wps st ! i) sampling_radius)"
      by simp
    let ?st1 = "st\<lparr>rng := g1, wps := wps st @ [wp]\<rparr>"
    have short: ?thesis if o: "wps (final_state out) = wps st @ [wp]" and nc: "\<not> completed out"
    proof -
      from o Suc.prems(2) have "\<forall>k. i \<le> k \<and> Suc k < length (wps (final_state out)) \<longrightarrow> k = i"
        by auto
      moreover from o Suc.prems(2) m
      have "wps (final_state out) ! Suc i \<in> set (wp_next S (wps (final_state out) ! i) sampling_radius)"
        by (simp add: nth_append)
      ultimately have "\<forall>k. i \<le> k \<and> Suc k < length (wps (final_state out)) \<longrightarrow>
           wps (final_state out) ! Suc k
             \<in> set (wp_next S (wps (final_state out) ! k) sampling_radius)" by blast
      with o nc Suc.prems(2) show ?thesis by simp
    qed
    show ?thesis
    proof (cases "generate_random_starting_pts R wp num g1")
      case (Inl e)
      with li c Suc.prems(1) have "out = Raised e ?st1" by (simp add: Let_def)
      then show ?thesis by (intro short) simp_all
    next
      case (Inr q)
      then obtain x0s g2 where g: "generate_random_starting_pts R wp num g1 = Inr (x0s, g2)"
        by (cases q) simp
      from li c g Suc.prems(1) obtain o1 where
        e: "episodes S R hz budget fuel x0s (?st1\<lparr>rng := g2\<rparr>) = Some o1"
        by (cases "episodes S R hz budget fuel x0s (?st1\<lparr>rng := g2\<rparr>)") (simp_all add: Let_def)
      from episodes_rows [OF e] have w1: "wps (final_state o1) = wps st @ [wp]" by simp
      show ?thesis
      proof (cases "completed o1")
        case False
        with li c g e Suc.prems(1) have "out = o1"
          by (cases o1) (simp_all add: Let_def)
        with w1 False show ?thesis by (intro short) simp_all
      next
        case True
        then obtain st2 where o1: "o1 = Normal st2" by (cases o1) simp_all
        with li c g e Suc.prems(1)
        have r: "path_loop S R hz budget fuel num n (Suc i) st2 = Some out"
          by (simp add: Let_def)
        from w1 o1 have w2: "wps st2 = wps st @ [wp]" by simp
        with Suc.prems(2) have "length (wps st2) = Suc (Suc i)" by simp
        from Suc.IH [OF r this] w2 have
          t: "take (Suc (Suc i)) (wps (final_state out)) = wps st @ [wp]"
          and l: "length (wps (final_state out)) \<le> Suc (Suc i) + n"
          and lc: "completed out \<longrightarrow> length (wps (final_state out)) = Suc (Suc i) + n"
          and ch: "\<forall>k. Suc i \<le> k \<and> Suc k < length (wps (final_state out)) \<longrightarrow>
             wps (final_state out) ! Suc k
               \<in> set (wp_next S (wps (final_state out) ! k) sampling_radius)"
          by simp_all
        from take_snoc_parts [OF t Suc.prems(2)] have
          t': "take (Suc i) (wps (final_state out)) = wps st"
          and a: "wps (final_state out) ! Suc i = wp"
          and b: "wps (final_state out) ! i = wps st ! i" by simp_all
        from a b m have first: "wps (final_state out) ! Suc i
            \<in> set (wp_next S (wps (final_state out) ! i) sampling_radius)" by simp
        have "\<forall>k. i \<le> k \<and> Suc k < length (wps (final_state out)) \<longrightarrow>
             wps (final_state out) ! Suc k
               \<in> set (wp_next S (wps (final_state out) ! k) sampling_radius)"
        proof (intro allI impI)
          fix k
          assume k: "i \<le> k \<and> Suc k < length (wps (final_state out))"
          show "wps (final_state out) ! Suc k
               \<in> set (wp_next S (wps (final_state out) ! k) sampling_radius)"
          proof (cases "k = i")
            case True
            with first show ?thesis by simp
          next
            case False
            with k have "Suc i \<le> k \<and> Suc k < length (wps (final_state out))" by simp
            with ch show ?thesis by blast
          qed
        qed
        with t' l lc show ?thesis by simp
      qed
    qed
  qed
qed

lemma path_loop_dead_end:
  assumes "i < length (wps st)" and "wp_next S (wps st ! i) sampling_radius = []"
  shows "path_loop S R hz budget fuel num (Suc n) i st = Some (Raised IndexError st)"
  using assms by (simp add: choice_def)

section \<open>Runs on the concrete collaborators\<close>

lemma straight_road_frames: "one_frame_per_wait straight_road"
  by (simp add: one_frame_per_wait_def frames_kept_def straight_road_def)

lemma straight_road_advances: "wait_advances straight_road"
  by (simp add: wait_advances_def frames_kept_def straight_road_def)

lemma straight_road_uninterrupted: "uninterrupted straight_road"
  by (simp add: uninterrupted_def straight_road_def)

lemma straight_road_lanes: "lanes_pass straight_road"
  by (simp add: lanes_pass_def straight_road_def road_wp_def radius_value)

lemma first_tick: "tick_body straight_road zero_draws 1 fresh = Normal after_first_tick"
  by (simp add: tick_body_def straight_road_def zero_draws_def fresh_def after_first_tick_def
      first_row_def Let_def choice_def vehicle_at_def road_wp_def transition_row_def
      transform_to_arr_def flatten_def future_wps_np_def writerow_def sampling_radius_def)

lemma first_tick_poses:
  "pre_pose straight_road fresh = vehicle_at 1" "post_pose straight_road fresh = vehicle_at 2"
  "pre_wp straight_road fresh = road_wp 3.5 1"
  by (simp_all add: pre_pose_def post_pose_def pre_wp_def pre_world_def post_world_def
      straight_road_def fresh_def vehicle_at_def)

text \<open>With a quit event pending, the first iteration of the first episode ends the run.\<close>

lemma quitting_tick: "tick_body quitting R hz st = Escape st"
  by (simp add: tick_body_def quitting_def straight_road_def)

lemma quitting_episode:
  "\<exists>st'. run_episode quitting R hz frame_budget (Suc fuel) x0 st = Some (Escape st')
     \<and> outfile st' = outfile st"
proof -
  obtain v g1 where gv: "generate_random_velocity R 30 (rng st) = (v, g1)"
    by (cases "generate_random_velocity R 30 (rng st)")
  then show ?thesis
    by (simp add: run_episode_def Let_def quitting_tick frame_budget_def)
qed

lemma episodes_halt:
  assumes "run_episode S R hz budget fuel x0 st = Some out" and "\<not> completed out"
  shows "episodes S R hz budget fuel (x0 # x0s) st = Some out"
  using assms by (cases out) simp_all

lemma path_loop_halt:
  assumes "i < length (wps st)"
    and "choice R (rng st) (wp_next S (wps st ! i) sampling_radius) = Inr (wp, g1)"
    and "generate_random_starting_pts R wp num g1 = Inr (x0s, g2)"
    and "episodes S R hz budget fuel x0s (st\<lparr>rng := g1, wps := wps st @ [wp]\<rparr>\<lparr>rng := g2\<rparr>)
          = Some out"
    and "\<not> completed out"
  shows "path_loop S R hz budget fuel num (Suc n) i st = Some out"
  using assms by (cases out) (simp_all add: Let_def)

lemma quitting_game:
  "\<exists>st'. game_loop quitting R (Suc fuel) w0 g0 file0 = Some (Escape st') \<and> outfile st' = file0"
proof -
  let ?st = "\<lparr>world = w0, rng = g0, outfile = file0, wps = [get_waypoint quitting start_loc]\<rparr>"
  let ?wp = "road_wp 3.5 (loc_x (location (transform (wps ?st ! 0))) + sampling_radius)"
  have nx: "wp_next quitting (wps ?st ! 0) sampling_radius = [?wp]"
    by (simp add: quitting_def straight_road_def)
  have c: "choice R (rng ?st) (wp_next quitting (wps ?st ! 0) sampling_radius) = Inr (?wp, Suc g0)"
    by (simp only: nx) (simp add: choice_def)
  have "\<not> radius < lane_width ?wp / 2" by (simp add: road_wp_def radius_value)
  with starting_pts_loop_length [of R "location (transform ?wp)" num_init_pt "Suc g0" "[]"]
  obtain x0s g2 where g: "generate_random_starting_pts R ?wp num_init_pt (Suc g0) = Inr (x0s, g2)"
    and lx: "length x0s = num_init_pt"
    by (cases "starting_pts_loop R (location (transform ?wp)) num_init_pt (Suc g0) []")
      (simp add: generate_random_starting_pts_def)
  from lx obtain x0 rest where x: "x0s = x0 # rest"
    by (cases x0s) (simp_all add: num_init_pt_def)
  let ?st1 = "?st\<lparr>rng := Suc g0, wps := wps ?st @ [?wp]\<rparr>\<lparr>rng := g2\<rparr>"
  from quitting_episode [of R horizon fuel x0 ?st1] obtain st' where
    e: "run_episode quitting R horizon frame_budget (Suc fuel) x0 ?st1 = Some (Escape st')"
    and o: "outfile st' = file0" by auto
  from episodes_halt [OF e, of rest] x
  have es: "episodes quitting R horizon frame_budget (Suc fuel) x0s ?st1 = Some (Escape st')"
    by simp
  have i: "0 < length (wps ?st)" by simp
  have "game_loop quitting R (Suc fuel) w0 g0 file0
      = path_loop quitting R horizon frame_budget (Suc fuel) num_init_pt (Suc 499) 0 ?st"
    by (simp add: game_loop_def num_wp_def)
  also have "\<dots> = Some (Escape st')"
    by (rule path_loop_halt [OF i c g es]) simp
  finally show ?thesis using o by blast
qed

lemma dead_end_game:
  "game_loop dead_end R fuel w0 g0 file0 = Some (Raised IndexError
     \<lparr>world = w0, rng = g0, outfile = file0, wps = [get_waypoint dead_end start_loc]\<rparr>)"
proof -
  let ?st = "\<lparr>world = w0, rng = g0, outfile = file0, wps = [get_waypoint dead_end start_loc]\<rparr>"
  have "game_loop dead_end R fuel w0 g0 file0
      = path_loop dead_end R horizon frame_budget fuel num_init_pt (Suc 499) 0 ?st"
    by (simp add: game_loop_def num_wp_def)
  also have "\<dots> = Some (Raised IndexError ?st)"
    by (rule path_loop_dead_end) (simp_all add: dead_end_def)
  finally show ?thesis .
qed

section \<open>Runs that are interrupted\<close>

lemma stepping_interrupted:
  "stepping S R hz budget fuel init st = Some out \<Longrightarrow> interrupted out \<Longrightarrow>
     \<exists>st1. tick_body S R hz st1 = out"
proof (induction fuel arbitrary: st)
  case 0
  then show ?case by simp
next
  case (Suc fuel)
  show ?case
  proof (cases "frame_number S (world st) - init < budget")
    case False
    with Suc.prems show ?thesis by auto
  next
    case True
    show ?thesis
    proof (cases "tick_body S R hz st")
      case (Normal st1)
      with True Suc.prems have "stepping S R hz budget fuel init st1 = Some out" by simp
      from Suc.IH [OF this Suc.prems(2)] show ?thesis .
    qed (use True Suc.prems in auto)
  qed
qed

lemma episodes_interrupted:
  "episodes S R hz budget fuel x0s st = Some out \<Longrightarrow> interrupted out \<Longrightarrow>
     \<exists>st1. tick_body S R hz st1 = out"
proof (induction x0s arbitrary: st)
  case Nil
  then show ?case by auto
next
  case (Cons x0 x0s)
  from Cons.prems obtain o1 where e: "run_episode S R hz budget fuel x0 st = Some o1"
    by (cases "run_episode S R hz budget fuel x0 st") simp_all
  from run_episode_stepping [of S R hz budget fuel x0 st] e obtain st0 where
    s: "stepping S R hz budget fuel (frame_number S (world st0)) st0 = Some o1" by auto
  show ?case
  proof (cases o1)
    case (Normal st1)
    with e Cons.prems have "episodes S R hz budget fuel x0s st1 = Some out" by simp
    from Cons.IH [OF this Cons.prems(2)] show ?thesis .
  next
    case (Escape st1)
    with e Cons.prems have "out = o1" by simp
    with s Cons.prems(2) stepping_interrupted show ?thesis by blast
  next
    case (NoVehicle st1)
    with e Cons.prems have "out = o1" by simp
    with s Cons.prems(2) stepping_interrupted show ?thesis by blast
  next
    case (Raised err st1)
    with e Cons.prems have "out = o1" by simp
    with s Cons.prems(2) stepping_interrupted show ?thesis by blast
  qed
qed

lemma path_loop_interrupted:
  "path_loop S R hz budget fuel num n i st = Some out \<Longrightarrow> interrupted out \<Longrightarrow>
     \<exists>st1. tick_body S R hz st1 = out"
proof (induction n arbitrary: i st)
  case 0
  then show ?case by auto
next
  case (Suc n)
  show ?case
  proof (cases "length (wps st) \<le> i")
    case True
    with Suc.prems show ?thesis by auto
  next
    case False
    show ?thesis
    proof (cases "choice R (rng st) (wp_next S (wps st ! i) sampling_radius)")
      case (Inl e)
      with False Suc.prems show ?thesis by auto
    next
      case (Inr p)
      then obtain wp g1 where c: "choice R (rng st) (wp_next S (wps st ! i) sampling_radius) = Inr (wp, g1)"
        by (cases p) simp
      let ?st1 = "st\<lparr>rng := g1, wps := wps st @ [wp]\<rparr>"
      show ?thesis
      proof (cases "generate_random_starting_pts R wp num g1")
        case (Inl e)
        with False c Suc.prems show ?thesis by auto
      next
        case (Inr q)
        then obtain x0s g2 where g: "generate_random_starting_pts R wp num g1 = Inr (x0s, g2)"
          by (cases q) simp
        from False c g Suc.prems obtain o1 where
          e: "episodes S R hz budget fuel x0s (?st1\<lparr>rng := g2\<rparr>) = Some o1"
          by (cases "episodes S R hz budget fuel x0s (?st1\<lparr>rng := g2\<rparr>)") (simp_all add: Let_def)
        show ?thesis
        proof (cases "completed o1")
          case False
          with \<open>\<not> length (wps st) \<le> i\<close> c g e Suc.prems have "out = o1"
            by (cases o1) (simp_all add: Let_def)
          with e Suc.prems(2) episodes_interrupted show ?thesis by blast
        next
          case True
          then obtain st2 where o1: "o1 = Normal st2" by (cases o1) simp_all
          with \<open>\<not> length (wps st) \<le> i\<close> c g e Suc.prems
          have "path_loop S R hz budget fuel num n (Suc i) st2 = Some out"
            by (simp add: Let_def)
          from Suc.IH [OF this Suc.prems(2)] show ?thesis .
        qed
      qed
    qed
  qed
qed

lemma game_loop_interrupted:
  assumes "game_loop S R fuel w0 g0 file0 = Some out" and "interrupted out"
  shows "\<exists>st1. tick_body S R horizon st1 = out"
  using assms path_loop_interrupted [of S R horizon frame_budget fuel num_init_pt num_wp 0 _ out]
  by (simp add: game_loop_def)

lemma run_episode_200:
  assumes "wait_advances S" and "run_episode S R hz frame_budget fuel x0 st = Some out"
  shows "rows_of out \<le> length (outfile st) + 200"
  using run_episode_bound [OF assms] by (simp add: frame_budget_def)

section \<open>The rows of an episode\<close>

text \<open>
  Claim C2, as the code has it. The budget of 400 is counted in frames of the HUD, and an
  iteration waits for two ticks. When every \<open>wait_for_tick\<close> advances the frame number
  by exactly one, with no quit event, no actor loss and a successor for every waypoint,
  an episode appends exactly 200 rows. When every \<open>wait_for_tick\<close> advances the frame
  number by at least one, an episode appends at most 200 rows however it ends. An
  episode that ends by a quit event or by actor loss ends the loop over the initial
  conditions with the same outcome, and a run of \<open>game_loop\<close> that ends so ends with the
  outcome of the interrupted iteration: nothing runs after it.
\<close>

theorem episode_rows:
  "(one_frame_per_wait S \<and> uninterrupted S \<and> 200 < fuel \<longrightarrow>
      (\<exists>st'. run_episode S R hz frame_budget fuel x0 st = Some (Normal st')
         \<and> length (outfile st') = length (outfile st) + 200))
   \<and> (wait_advances S \<and> run_episode S R hz frame_budget fuel x0 st = Some out \<longrightarrow>
        rows_of out \<le> length (outfile st) + 200)
   \<and> (run_episode S R hz frame_budget fuel x0 st = Some out \<and> interrupted out \<longrightarrow>
        episodes S R hz frame_budget fuel (x0 # x0s) st = Some out)
   \<and> (game_loop S R fuel w0 g0 file0 = Some out' \<and> interrupted out' \<longrightarrow>
        (\<exists>st1. tick_body S R horizon st1 = out'))"
proof (intro conjI impI)
  assume a: "one_frame_per_wait S \<and> uninterrupted S \<and> 200 < fuel"
  then have "nat ((frame_budget + 1) div 2) < fuel" by (simp add: frame_budget_def)
  with a run_episode_exact [of S frame_budget fuel R hz x0 st]
  show "\<exists>st'. run_episode S R hz frame_budget fuel x0 st = Some (Normal st')
         \<and> length (outfile st') = length (outfile st) + 200"
    by (simp add: frame_budget_def)
next
  assume "wait_advances S \<and> run_episode S R hz frame_budget fuel x0 st = Some out"
  then show "rows_of out \<le> length (outfile st) + 200"
    using run_episode_200 by blast
next
  assume a: "run_episode S R hz frame_budget fuel x0 st = Some out \<and> interrupted out"
  then have "\<not> completed out" by (cases out) simp_all
  with a show "episodes S R hz frame_budget fuel (x0 # x0s) st = Some out"
    using episodes_halt by blast
next
  assume "game_loop S R fuel w0 g0 file0 = Some out' \<and> interrupted out'"
  then have 1: "game_loop S R fuel w0 g0 file0 = Some out'" and 2: "interrupted out'"
    by simp_all
  from game_loop_interrupted [OF 1 2] show "\<exists>st1. tick_body S R horizon st1 = out'" .
qed

theorem episode_rows_witness:
  "(\<exists>st'. run_episode straight_road zero_draws horizon frame_budget 201 (vehicle_at 0) fresh
             = Some (Normal st')
        \<and> length (outfile st') = length (outfile fresh) + 200
        \<and> rows_of (Normal st') \<le> length (outfile fresh) + 200)
   \<and> (\<exists>st'. run_episode quitting zero_draws horizon frame_budget 201 (vehicle_at 0) fresh
             = Some (Escape st')
        \<and> episodes quitting zero_draws horizon frame_budget 201 [vehicle_at 0, vehicle_at 1] fresh
             = Some (Escape st'))
   \<and> (\<exists>st' st1. game_loop quitting zero_draws 201 0 0 [] = Some (Escape st')
        \<and> tick_body quitting zero_draws horizon st1 = Escape st')"
proof -
  have f: "one_frame_per_wait straight_road \<and> uninterrupted straight_road \<and> (200::nat) < 201"
    using straight_road_frames straight_road_uninterrupted by simp
  with episode_rows [of straight_road 201 zero_draws horizon "vehicle_at 0" fresh]
  obtain st' where
    r: "run_episode straight_road zero_draws horizon frame_budget 201 (vehicle_at 0) fresh
          = Some (Normal st')"
    and l: "length (outfile st') = length (outfile fresh) + 200" by blast
  from r straight_road_advances
    episode_rows [of straight_road 201 zero_draws horizon "vehicle_at 0" fresh "Normal st'"]
  have b: "rows_of (Normal st') \<le> length (outfile fresh) + 200" by blast
  from quitting_episode [of zero_draws horizon 200 "vehicle_at 0" fresh] obtain st2 where
    q: "run_episode quitting zero_draws horizon frame_budget 201 (vehicle_at 0) fresh
          = Some (Escape st2)" by auto
  have "interrupted (Escape st2)" by simp
  with q episode_rows [of quitting 201 zero_draws horizon "vehicle_at 0" fresh "Escape st2"
      "[vehicle_at 1]"]
  have h: "episodes quitting zero_draws horizon frame_budget 201 [vehicle_at 0, vehicle_at 1] fresh
             = Some (Escape st2)" by blast
  from quitting_game [of zero_draws 200 0 0 "[]"] obtain st3 where
    g: "game_loop quitting zero_draws 201 0 0 [] = Some (Escape st3)" by auto
  have "interrupted (Escape st3)" by simp
  with g episode_rows [of quitting 201 zero_draws horizon "vehicle_at 0" fresh _ _ 0 0 "[]"
      "Escape st3"]
  obtain st1 where "tick_body quitting zero_draws horizon st1 = Escape st3" by blast
  with r l b q h g show ?thesis by blast
qed

text \<open>
  Claim C2 as stated fails on the straight road, where each \<open>wait_for_tick\<close> is one frame
  and nothing interrupts: the episode completes with 200 rows appended, not 400.
\<close>

theorem episode_not_400_rows:
  "map_option completed
     (run_episode straight_road zero_draws horizon frame_budget 201 (vehicle_at 0) fresh)
     = Some True
   \<and> map_option rows_of
     (run_episode straight_road zero_draws horizon frame_budget 201 (vehicle_at 0) fresh)
     = Some (rows_of (Normal fresh) + 200)
   \<and> map_option rows_of
     (run_episode straight_road zero_draws horizon frame_budget 201 (vehicle_at 0) fresh)
     \<noteq> Some (rows_of (Normal fresh) + 400)"
proof -
  have "nat ((frame_budget + 1) div 2) < 201" by (simp add: frame_budget_def)
  from run_episode_exact [OF straight_road_frames straight_road_uninterrupted this,
      of zero_draws horizon "vehicle_at 0" fresh]
  obtain st' where
    "run_episode straight_road zero_draws horizon frame_budget 201 (vehicle_at 0) fresh
       = Some (Normal st')"
    "length (outfile st') = length (outfile fresh) + 200"
    by (auto simp: frame_budget_def)
  then show ?thesis by (simp add: rows_of_def)
qed

section \<open>The length of the reference path\<close>

text \<open>
  Claim C4. The reference path of \<open>game_loop\<close> starts at the waypoint nearest the start
  location and grows by one waypoint per iteration of the outer loop, each a member of
  the successors \<open>next(sampling_radius)\<close> of the one before. For every number \<open>n\<close> of
  iterations, a run of the loop that completes leaves exactly \<open>n + 1\<close> waypoints and no run
  leaves more; in \<open>game_loop\<close> that is \<open>num_wp + 1\<close>. A waypoint with no successor raises
  \<open>IndexError\<close> out of \<open>random.choice\<close> at once: the loop does not go on with a shorter
  path.
\<close>

theorem reference_path:
  "(path_loop S R hz budget fuel num n 0 st = Some out \<and> wps st = [org_wp] \<longrightarrow>
      wps (final_state out) ! 0 = org_wp
      \<and> length (wps (final_state out)) \<le> n + 1
      \<and> (completed out \<longrightarrow> length (wps (final_state out)) = n + 1)
      \<and> (\<forall>k. Suc k < length (wps (final_state out)) \<longrightarrow>
            wps (final_state out) ! Suc k
              \<in> set (wp_next S (wps (final_state out) ! k) sampling_radius)))
   \<and> (game_loop S R fuel w0 g0 file0 = Some out' \<and> completed out' \<longrightarrow>
        length (wps (final_state out')) = num_wp + 1
        \<and> wps (final_state out') ! 0 = get_waypoint S start_loc)
   \<and> (i < length (wps st') \<and> wp_next S (wps st' ! i) sampling_radius = [] \<longrightarrow>
        path_loop S R hz budget fuel num (Suc n) i st' = Some (Raised IndexError st'))"
proof -
  have 1: "path_loop S R hz budget fuel num n 0 st = Some out \<and> wps st = [org_wp] \<longrightarrow>
      wps (final_state out) ! 0 = org_wp
      \<and> length (wps (final_state out)) \<le> n + 1
      \<and> (completed out \<longrightarrow> length (wps (final_state out)) = n + 1)
      \<and> (\<forall>k. Suc k < length (wps (final_state out)) \<longrightarrow>
            wps (final_state out) ! Suc k
              \<in> set (wp_next S (wps (final_state out) ! k) sampling_radius))"
  proof
    assume a: "path_loop S R hz budget fuel num n 0 st = Some out \<and> wps st = [org_wp]"
    then have p: "path_loop S R hz budget fuel num n 0 st = Some out"
      and l: "length (wps st) = Suc 0" and w: "wps st = [org_wp]" by simp_all
    from path_loop_path [OF p l] w have
      t: "take (Suc 0) (wps (final_state out)) = [org_wp]"
      and r: "length (wps (final_state out)) \<le> n + 1
        \<and> (completed out \<longrightarrow> length (wps (final_state out)) = n + 1)
        \<and> (\<forall>k. Suc k < length (wps (final_state out)) \<longrightarrow>
           wps (final_state out) ! Suc k
             \<in> set (wp_next S (wps (final_state out) ! k) sampling_radius))"
      by simp_all
    from t have "wps (final_state out) ! 0 = org_wp"
      by (cases "wps (final_state out)") simp_all
    with r show "wps (final_state out) ! 0 = org_wp
      \<and> length (wps (final_state out)) \<le> n + 1
      \<and> (completed out \<longrightarrow> length (wps (final_state out)) = n + 1)
      \<and> (\<forall>k. Suc k < length (wps (final_state out)) \<longrightarrow>
            wps (final_state out) ! Suc k
              \<in> set (wp_next S (wps (final_state out) ! k) sampling_radius))" by simp
  qed
  have 2: "game_loop S R fuel w0 g0 file0 = Some out' \<and> completed out' \<longrightarrow>
        length (wps (final_state out')) = num_wp + 1
        \<and> wps (final_state out') ! 0 = get_waypoint S start_loc"
  proof
    assume a: "game_loop S R fuel w0 g0 file0 = Some out' \<and> completed out'"
    let ?st = "\<lparr>world = w0, rng = g0, outfile = file0, wps = [get_waypoint S start_loc]\<rparr>"
    from a have p: "path_loop S R horizon frame_budget fuel num_init_pt num_wp 0 ?st = Some out'"
      by (simp add: game_loop_def)
    have l: "length (wps ?st) = Suc 0" by simp
    from path_loop_path [OF p l] a have
      t: "take (Suc 0) (wps (final_state out')) = [get_waypoint S start_loc]"
      and c: "length (wps (final_state out')) = num_wp + 1" by simp_all
    from t have "wps (final_state out') ! 0 = get_waypoint S start_loc"
      by (cases "wps (final_state out')") simp_all
    with c show "length (wps (final_state out')) = num_wp + 1
        \<and> wps (final_state out') ! 0 = get_waypoint S start_loc" by simp
  qed
  have 3: "i < length (wps st') \<and> wp_next S (wps st' ! i) sampling_radius = [] \<longrightarrow>
        path_loop S R hz budget fuel num (Suc n) i st' = Some (Raised IndexError st')"
    by (simp add: choice_def)
  from 1 2 3 show ?thesis by (intro conjI)
qed

theorem reference_path_witness:
  "(\<exists>st1. game_loop straight_road zero_draws 201 0 0 [] = Some (Normal st1)
      \<and> length (wps st1) = num_wp + 1
      \<and> wps st1 ! 0 = get_waypoint straight_road start_loc
      \<and> wps st1 ! Suc 0 \<in> set (wp_next straight_road (wps st1 ! 0) sampling_radius))
   \<and> path_loop dead_end zero_draws horizon frame_budget 201 num_init_pt (Suc 499) 0 fresh
        = Some (Raised IndexError fresh)"
proof -
  let ?st = "\<lparr>world = 0, rng = 0, outfile = [], wps = [get_waypoint straight_road start_loc]\<rparr>"
  from game_loop_complete [OF straight_road_frames straight_road_uninterrupted straight_road_lanes,
      of 201 zero_draws 0 0 "[]"]
  obtain st1 where g: "game_loop straight_road zero_draws 201 0 0 [] = Some (Normal st1)"
    by auto
  then have p: "path_loop straight_road zero_draws horizon frame_budget 201 num_init_pt num_wp 0 ?st
      = Some (Normal st1) \<and> wps ?st = [get_waypoint straight_road start_loc]"
    by (simp add: game_loop_def)
  from g have c: "game_loop straight_road zero_draws 201 0 0 [] = Some (Normal st1)
      \<and> completed (Normal st1)" by simp
  have e: "0 < length (wps fresh) \<and> wp_next dead_end (wps fresh ! 0) sampling_radius = []"
    by (simp add: fresh_def dead_end_def)
  note t = reference_path [where S = straight_road and R = zero_draws and hz = horizon
      and budget = frame_budget and fuel = 201 and num = num_init_pt and n = num_wp
      and st = ?st and out = "Normal st1" and org_wp = "get_waypoint straight_road start_loc"
      and ?w0.0 = 0 and ?g0.0 = 0 and ?file0.0 = "[]" and out' = "Normal st1"
      and i = 0 and st' = fresh]
  from t p c have l: "length (wps st1) = num_wp + 1"
    and h: "wps st1 ! 0 = get_waypoint straight_road start_loc"
    and ch: "\<forall>k. Suc k < length (wps st1) \<longrightarrow>
            wps st1 ! Suc k \<in> set (wp_next straight_road (wps st1 ! k) sampling_radius)"
    by simp_all
  from l have "Suc 0 < length (wps st1)" by (simp add: num_wp_def)
  with ch have s: "wps st1 ! Suc 0 \<in> set (wp_next straight_road (wps st1 ! 0) sampling_radius)"
    by blast
  from e reference_path [where S = dead_end and R = zero_draws and hz = horizon
      and budget = frame_budget and fuel = 201 and num = num_init_pt and n = 499
      and i = 0 and st' = fresh]
  have d: "path_loop dead_end zero_draws horizon frame_budget 201 num_init_pt (Suc 499) 0 fresh
        = Some (Raised IndexError fresh)" by blast
  from g l h s d show ?thesis by blast
qed

section \<open>The width and the layout of a row\<close>

text \<open>
  Claim C5. Every row that a run of \<open>game_loop\<close> appends to the file has
  \<open>3 + 6 + 3 + 6 + 3 + 2 + 2*(horizon+1) + 2\<close> fields, where \<open>horizon\<close> is the lookahead
  horizon of the source (50, so 127 fields), however the run ends. The row of an iteration
  is, in this order: the control, the pre-pose, the pre-velocity, the post-pose, the
  post-velocity, the pre-location relative to the waypoint nearest it, the flattened
  lookahead of \<open>hz + 1\<close> waypoints with its \<open>2*(hz+1)\<close> entries, and the post-location
  relative to the same waypoint. An iteration whose lookahead meets a waypoint without
  successor raises and appends no row.
\<close>

theorem row_width:
  "(game_loop S R fuel w0 g0 file0 = Some out \<longrightarrow>
      (\<exists>new. outfile (final_state out) = file0 @ new
         \<and> (\<forall>row \<in> set new. length row = 3 + 6 + 3 + 6 + 3 + 2 + 2 * (horizon + 1) + 2)))
   \<and> (tick_body S R hz st = Normal st' \<longrightarrow>
        (\<exists>fw. length fw = hz + 1
           \<and> length (flatten (future_wps_np fw (pre_wp S st))) = 2 * (hz + 1)
           \<and> outfile st' = outfile st @
               [[throttle (get_control S (pre_world S (world st))),
                 steer (get_control S (pre_world S (world st))),
                 brake (get_control S (pre_world S (world st)))]
                @ transform_to_arr (pre_pose S st)
                @ [vec_x (get_velocity S (pre_world S (world st))),
                   vec_y (get_velocity S (pre_world S (world st))),
                   vec_z (get_velocity S (pre_world S (world st)))]
                @ transform_to_arr (post_pose S st)
                @ [vec_x (get_velocity S (post_world S (world st))),
                   vec_y (get_velocity S (post_world S (world st))),
                   vec_z (get_velocity S (post_world S (world st)))]
                @ [loc_x (location (pre_pose S st)) - loc_x (location (transform (pre_wp S st))),
                   loc_y (location (pre_pose S st)) - loc_y (location (transform (pre_wp S st)))]
                @ flatten (future_wps_np fw (pre_wp S st))
                @ [loc_x (location (post_pose S st)) - loc_x (location (transform (pre_wp S st))),
                   loc_y (location (post_pose S st)) - loc_y (location (transform (pre_wp S st)))]]))
   \<and> (tick_body S R hz st = Raised e st'' \<longrightarrow> outfile st'' = outfile st)"
proof -
  have 1: "game_loop S R fuel w0 g0 file0 = Some out \<longrightarrow>
      (\<exists>new. outfile (final_state out) = file0 @ new
         \<and> (\<forall>row \<in> set new. length row = 3 + 6 + 3 + 6 + 3 + 2 + 2 * (horizon + 1) + 2))"
  proof
    assume "game_loop S R fuel w0 g0 file0 = Some out"
    from game_loop_rows [OF this] show "\<exists>new. outfile (final_state out) = file0 @ new
         \<and> (\<forall>row \<in> set new. length row = 3 + 6 + 3 + 6 + 3 + 2 + 2 * (horizon + 1) + 2)"
      by (auto simp: window_row_def)
  qed
  have 2: "tick_body S R hz st = Normal st' \<longrightarrow>
        (\<exists>fw. length fw = hz + 1
           \<and> length (flatten (future_wps_np fw (pre_wp S st))) = 2 * (hz + 1)
           \<and> outfile st' = outfile st @
               [[throttle (get_control S (pre_world S (world st))),
                 steer (get_control S (pre_world S (world st))),
                 brake (get_control S (pre_world S (world st)))]
                @ transform_to_arr (pre_pose S st)
                @ [vec_x (get_velocity S (pre_world S (world st))),
                   vec_y (get_velocity S (pre_world S (world st))),
                   vec_z (get_velocity S (pre_world S (world st)))]
                @ transform_to_arr (post_pose S st)
                @ [vec_x (get_velocity S (post_world S (world st))),
                   vec_y (get_velocity S (post_world S (world st))),
                   vec_z (get_velocity S (post_world S (world st)))]
                @ [loc_x (location (pre_pose S st)) - loc_x (location (transform (pre_wp S st))),
                   loc_y (location (pre_pose S st)) - loc_y (location (transform (pre_wp S st)))]
                @ flatten (future_wps_np fw (pre_wp S st))
                @ [loc_x (location (post_pose S st)) - loc_x (location (transform (pre_wp S st))),
                   loc_y (location (post_pose S st)) - loc_y (location (transform (pre_wp S st)))]])"
  proof
    assume t: "tick_body S R hz st = Normal st'"
    from tick_body_Normal [OF t] obtain fw where
      f: "future_wps_loop S R hz [pre_wp S st] (rng st) = Inr (fw, rng st')"
      and o: "outfile st' = outfile st @
         [transition_row (get_control S (pre_world S (world st))) (pre_pose S st)
            (get_velocity S (pre_world S (world st))) (post_pose S st)
            (get_velocity S (post_world S (world st))) (pre_wp S st) fw]"
      by blast
    from future_wps_loop_first [OF f] have l: "length fw = hz + 1" by simp
    then have "length (flatten (future_wps_np fw (pre_wp S st))) = 2 * (hz + 1)"
      by (simp add: length_flatten_future_wps_np)
    with l o show "\<exists>fw. length fw = hz + 1
           \<and> length (flatten (future_wps_np fw (pre_wp S st))) = 2 * (hz + 1)
           \<and> outfile st' = outfile st @
               [[throttle (get_control S (pre_world S (world st))),
                 steer (get_control S (pre_world S (world st))),
                 brake (get_control S (pre_world S (world st)))]
                @ transform_to_arr (pre_pose S st)
                @ [vec_x (get_velocity S (pre_world S (world st))),
                   vec_y (get_velocity S (pre_world S (world st))),
                   vec_z (get_velocity S (pre_world S (world st)))]
                @ transform_to_arr (post_pose S st)
                @ [vec_x (get_velocity S (post_world S (world st))),
                   vec_y (get_velocity S (post_world S (world st))),
                   vec_z (get_velocity S (post_world S (world st)))]
                @ [loc_x (location (pre_pose S st)) - loc_x (location (transform (pre_wp S st))),
                   loc_y (location (pre_pose S st)) - loc_y (location (transform (pre_wp S st)))]
                @ flatten (future_wps_np fw (pre_wp S st))
                @ [loc_x (location (post_pose S st)) - loc_x (location (transform (pre_wp S st))),
                   loc_y (location (post_pose S st)) - loc_y (location (transform (pre_wp S st)))]]"
      unfolding transition_row_def by blast
  qed
  have 3: "tick_body S R hz st = Raised e st'' \<longrightarrow> outfile st'' = outfile st"
    using tick_body_other [of S R hz st "Raised e st''"] by simp
  from 1 2 3 show ?thesis by (intro conjI)
qed

theorem row_width_witness:
  "(\<exists>st1 new. game_loop straight_road zero_draws 201 0 0 [] = Some (Normal st1)
      \<and> outfile st1 = [] @ new \<and> new \<noteq> []
      \<and> (\<forall>row \<in> set new. length row = 127))
   \<and> tick_body straight_road zero_draws 1 fresh = Normal after_first_tick
   \<and> outfile after_first_tick = outfile fresh @ [first_row]
   \<and> length first_row = 3 + 6 + 3 + 6 + 3 + 2 + 2 * (1 + 1) + 2
   \<and> (\<exists>fw. length fw = 1 + 1
        \<and> length (flatten (future_wps_np fw (pre_wp straight_road fresh))) = 2 * (1 + 1))
   \<and> tick_body dead_end zero_draws 1 fresh = Raised IndexError (fresh\<lparr>world := 1\<rparr>)
   \<and> outfile (fresh\<lparr>world := 1\<rparr>) = outfile fresh"
proof -
  from game_loop_complete [OF straight_road_frames straight_road_uninterrupted straight_road_lanes,
      of 201 zero_draws 0 0 "[]"]
  obtain st1 where g: "game_loop straight_road zero_draws 201 0 0 [] = Some (Normal st1)"
    and n: "length (outfile st1) = length ([]::real list list) + num_wp * (num_init_pt * 200)"
    by auto
  from g row_width [of straight_road zero_draws 201 0 0 "[]" "Normal st1"]
  obtain new where a: "outfile st1 = [] @ new"
    and b: "\<forall>row \<in> set new. length row = 3 + 6 + 3 + 6 + 3 + 2 + 2 * (horizon + 1) + 2"
    by auto
  from n a have c: "new \<noteq> []" by (auto simp: num_wp_def num_init_pt_def)
  from b have b': "\<forall>row \<in> set new. length row = 127" by (simp add: horizon_def)
  from first_tick row_width [where S = straight_road and R = zero_draws and hz = 1
      and st = fresh and st' = after_first_tick]
  obtain fw where l: "length fw = 1 + 1"
    and f: "length (flatten (future_wps_np fw (pre_wp straight_road fresh))) = 2 * (1 + 1)"
    by blast
  have d: "tick_body dead_end zero_draws 1 fresh = Raised IndexError (fresh\<lparr>world := 1\<rparr>)"
    by (simp add: tick_body_def dead_end_def straight_road_def fresh_def choice_def Let_def)
  from d row_width [where S = dead_end and R = zero_draws and hz = 1 and st = fresh
      and e = IndexError and st'' = "fresh\<lparr>world := 1\<rparr>"]
  have e: "outfile (fresh\<lparr>world := 1\<rparr>) = outfile fresh" by blast
  have w: "length first_row = 3 + 6 + 3 + 6 + 3 + 2 + 2 * (1 + 1) + 2"
    by (simp add: first_row_def)
  have o: "outfile after_first_tick = outfile fresh @ [first_row]"
    by (simp add: after_first_tick_def fresh_def)
  from g a b' c first_tick l f d e w o show ?thesis by blast
qed

section \<open>The contents of a row\<close>

lemma tick_body_last_row:
  assumes "tick_body S R hz st = Normal st'"
  shows "\<exists>fw. length fw = hz + 1 \<and> hd fw = pre_wp S st
     \<and> last (outfile st') =
         transition_row (get_control S (pre_world S (world st))) (pre_pose S st)
            (get_velocity S (pre_world S (world st))) (post_pose S st)
            (get_velocity S (post_world S (world st))) (pre_wp S st) fw"
proof -
  from tick_body_Normal [OF assms] obtain fw where
    f: "future_wps_loop S R hz [pre_wp S st] (rng st) = Inr (fw, rng st')"
    and o: "outfile st' = outfile st @
         [transition_row (get_control S (pre_world S (world st))) (pre_pose S st)
            (get_velocity S (pre_world S (world st))) (post_pose S st)
            (get_velocity S (post_world S (world st))) (pre_wp S st) fw]"
    by blast
  from future_wps_loop_first [OF f] o show ?thesis by auto
qed

text \<open>
  Claim C6. In the row of every recorded transition, the last two entries are the post-state
  location minus the location of \<open>cur_wp\<close>, where \<open>cur_wp\<close> is \<open>map.get_waypoint\<close> of the
  pre-state location: the waypoint that entries 21 and 22 (the relative pre-location) and
  the lookahead window, which starts with it, are taken from. No waypoint is looked up
  for the post-state location.
\<close>

theorem rel_post_from_pre_waypoint:
  assumes "tick_body S R hz st = Normal st'"
  shows "drop (23 + 2 * (hz + 1)) (last (outfile st')) =
       [loc_x (location (post_pose S st))
          - loc_x (location (transform (get_waypoint S (location (pre_pose S st))))),
        loc_y (location (post_pose S st))
          - loc_y (location (transform (get_waypoint S (location (pre_pose S st)))))]
     \<and> take 2 (drop 21 (last (outfile st'))) =
       [loc_x (location (pre_pose S st))
          - loc_x (location (transform (get_waypoint S (location (pre_pose S st))))),
        loc_y (location (pre_pose S st))
          - loc_y (location (transform (get_waypoint S (location (pre_pose S st)))))]
     \<and> (\<exists>fw. hd fw = get_waypoint S (location (pre_pose S st)) \<and> length fw = hz + 1
          \<and> take (2 * (hz + 1)) (drop 23 (last (outfile st')))
              = flatten (future_wps_np fw (get_waypoint S (location (pre_pose S st)))))"
proof -
  from tick_body_last_row [OF assms] obtain fw where
    l: "length fw = hz + 1" and h: "hd fw = pre_wp S st"
    and r: "last (outfile st') =
         transition_row (get_control S (pre_world S (world st))) (pre_pose S st)
            (get_velocity S (pre_world S (world st))) (post_pose S st)
            (get_velocity S (post_world S (world st))) (pre_wp S st) fw"
    by blast
  have w: "pre_wp S st = get_waypoint S (location (pre_pose S st))" by (simp add: pre_wp_def)
  from transition_row_suffix [of fw] l r w
  have a: "drop (23 + 2 * (hz + 1)) (last (outfile st')) =
       [loc_x (location (post_pose S st))
          - loc_x (location (transform (get_waypoint S (location (pre_pose S st))))),
        loc_y (location (post_pose S st))
          - loc_y (location (transform (get_waypoint S (location (pre_pose S st)))))]"
    by simp
  have b: "take 2 (drop 21 (last (outfile st'))) =
       [loc_x (location (pre_pose S st))
          - loc_x (location (transform (get_waypoint S (location (pre_pose S st))))),
        loc_y (location (pre_pose S st))
          - loc_y (location (transform (get_waypoint S (location (pre_pose S st)))))]"
    by (simp add: r w transition_row_def transform_to_arr_def)
  from transition_row_lookahead [of fw] l r w
  have "take (2 * (hz + 1)) (drop 23 (last (outfile st')))
      = flatten (future_wps_np fw (get_waypoint S (location (pre_pose S st))))"
    by simp
  with a b h l w show ?thesis by auto
qed

theorem rel_post_from_pre_waypoint_witness:
  "tick_body straight_road zero_draws 1 fresh = Normal after_first_tick
   \<and> get_waypoint straight_road (location (pre_pose straight_road fresh)) = road_wp 3.5 1
   \<and> get_waypoint straight_road (location (post_pose straight_road fresh)) = road_wp 3.5 2
   \<and> drop (23 + 2 * (1 + 1)) (last (outfile after_first_tick)) = [2 - 1, 0.25 - 0]"
proof -
  have p: "get_waypoint straight_road (location (pre_pose straight_road fresh)) = road_wp 3.5 1"
    "get_waypoint straight_road (location (post_pose straight_road fresh)) = road_wp 3.5 2"
    by (simp_all add: first_tick_poses) (simp_all add: straight_road_def vehicle_at_def)
  have q: "get_waypoint straight_road (location (vehicle_at 1)) = road_wp 3.5 1"
    by (simp add: straight_road_def vehicle_at_def)
  from rel_post_from_pre_waypoint [OF first_tick]
  have "drop (23 + 2 * (1 + 1)) (last (outfile after_first_tick)) =
       [loc_x (location (post_pose straight_road fresh))
          - loc_x (location (transform (get_waypoint straight_road (location (pre_pose straight_road fresh))))),
        loc_y (location (post_pose straight_road fresh))
          - loc_y (location (transform (get_waypoint straight_road (location (pre_pose straight_road fresh)))))]"
    by blast
  then have "drop (23 + 2 * (1 + 1)) (last (outfile after_first_tick)) =
       [loc_x (location (vehicle_at 2)) - loc_x (location (transform (road_wp 3.5 1))),
        loc_y (location (vehicle_at 2)) - loc_y (location (transform (road_wp 3.5 1)))]"
    by (simp only: first_tick_poses q)
  then have "drop (23 + 2 * (1 + 1)) (last (outfile after_first_tick)) = [2 - 1, 0.25 - 0]"
    by (simp add: vehicle_at_def road_wp_def)
  with first_tick p show ?thesis by blast
qed

text \<open>
  Claim C7, over the reals. In the row of every recorded transition, entries 21 and 22
  (the relative pre-location) plus the planar location of \<open>cur_wp\<close> give the planar
  pre-location, which the row also holds at entries 3 and 4.
\<close>

theorem rel_pre_round_trip:
  assumes "tick_body S R hz st = Normal st'"
  shows "last (outfile st') ! 21 + loc_x (location (transform (pre_wp S st)))
       = loc_x (location (pre_pose S st))
     \<and> last (outfile st') ! 22 + loc_y (location (transform (pre_wp S st)))
       = loc_y (location (pre_pose S st))
     \<and> last (outfile st') ! 3 = loc_x (location (pre_pose S st))
     \<and> last (outfile st') ! 4 = loc_y (location (pre_pose S st))"
proof -
  from tick_body_last_row [OF assms] obtain fw where
    r: "last (outfile st') =
         transition_row (get_control S (pre_world S (world st))) (pre_pose S st)
            (get_velocity S (pre_world S (world st))) (post_pose S st)
            (get_velocity S (post_world S (world st))) (pre_wp S st) fw"
    by blast
  show ?thesis by (simp add: r transition_row_def transform_to_arr_def)
qed

theorem rel_pre_round_trip_witness:
  "tick_body straight_road zero_draws 1 fresh = Normal after_first_tick
   \<and> last (outfile after_first_tick) ! 21 + loc_x (location (transform (road_wp 3.5 1)))
       = loc_x (location (vehicle_at 1))
   \<and> last (outfile after_first_tick) ! 22 + loc_y (location (transform (road_wp 3.5 1)))
       = loc_y (location (vehicle_at 1))"
  using rel_pre_round_trip [OF first_tick] first_tick
  by (simp add: first_tick_poses)

text \<open>
  Claim C9. The row is a function of the captured tuple alone, and appending it does not
  look at the file: assembling and appending twice from the same tuple adds the same line
  of bytes twice, whatever text \<open>fmt\<close> the writer gives a float.
\<close>

theorem transition_recorder_deterministic:
  "csv_text fmt (writerow (writerow file
       (transition_row control cur_loc cur_vel next_loc next_vel cur_wp future_wps))
       (transition_row control cur_loc cur_vel next_loc next_vel cur_wp future_wps))
     = csv_text fmt file
       @ csv_line fmt (transition_row control cur_loc cur_vel next_loc next_vel cur_wp future_wps)
       @ csv_line fmt (transition_row control cur_loc cur_vel next_loc next_vel cur_wp future_wps)"
  by (simp add: csv_text_def writerow_def)

text \<open>
  Claim C10. In every row that a run of \<open>game_loop\<close> appends, entries 23 and 24, the first
  pair of the flattened lookahead window, are 0: the window of an iteration starts with
  \<open>cur_wp\<close>, whose offset from itself is the first pair.
\<close>

theorem lookahead_starts_at_zero:
  "(game_loop S R fuel w0 g0 file0 = Some out \<longrightarrow>
      (\<exists>new. outfile (final_state out) = file0 @ new
         \<and> (\<forall>row \<in> set new. take 2 (drop 23 row) = [0, 0])))
   \<and> (tick_body S R hz st = Normal st' \<longrightarrow>
        (\<exists>fw. hd fw = pre_wp S st \<and> length fw = hz + 1
           \<and> take (2 * (hz + 1)) (drop 23 (last (outfile st')))
               = flatten (future_wps_np fw (pre_wp S st))
           \<and> take 2 (flatten (future_wps_np fw (pre_wp S st))) = [0, 0]))"
proof -
  have z: "take 2 (drop 23 row) = [0, 0]" if "window_row hz' row" for hz' and row :: "real list"
  proof -
    from that have "length (drop 23 row) = 2 * hz' + 4" "drop 23 row ! 0 = 0" "drop 23 row ! 1 = 0"
      by (simp_all add: window_row_def)
    then show ?thesis
      by (cases "drop 23 row"; cases "tl (drop 23 row)") auto
  qed
  have 1: "game_loop S R fuel w0 g0 file0 = Some out \<longrightarrow>
      (\<exists>new. outfile (final_state out) = file0 @ new
         \<and> (\<forall>row \<in> set new. take 2 (drop 23 row) = [0, 0]))"
  proof
    assume "game_loop S R fuel w0 g0 file0 = Some out"
    from game_loop_rows [OF this] z show "\<exists>new. outfile (final_state out) = file0 @ new
         \<and> (\<forall>row \<in> set new. take 2 (drop 23 row) = [0, 0])"
      by blast
  qed
  have 2: "tick_body S R hz st = Normal st' \<longrightarrow>
        (\<exists>fw. hd fw = pre_wp S st \<and> length fw = hz + 1
           \<and> take (2 * (hz + 1)) (drop 23 (last (outfile st')))
               = flatten (future_wps_np fw (pre_wp S st))
           \<and> take 2 (flatten (future_wps_np fw (pre_wp S st))) = [0, 0])"
  proof
    assume "tick_body S R hz st = Normal st'"
    from tick_body_last_row [OF this] obtain fw where
      l: "length fw = hz + 1" and h: "hd fw = pre_wp S st"
      and r: "last (outfile st') =
         transition_row (get_control S (pre_world S (world st))) (pre_pose S st)
            (get_velocity S (pre_world S (world st))) (post_pose S st)
            (get_velocity S (post_world S (world st))) (pre_wp S st) fw"
      by blast
    from l h obtain rest where fw: "fw = pre_wp S st # rest" by (cases fw) simp_all
    have a: "take 2 (flatten (future_wps_np fw (pre_wp S st))) = [0, 0]"
      by (simp add: fw flatten_future_wps_np_Cons)
    from transition_row_lookahead [of fw] l r
    have "take (2 * (hz + 1)) (drop 23 (last (outfile st')))
        = flatten (future_wps_np fw (pre_wp S st))" by simp
    with a l h show "\<exists>fw. hd fw = pre_wp S st \<and> length fw = hz + 1
           \<and> take (2 * (hz + 1)) (drop 23 (last (outfile st')))
               = flatten (future_wps_np fw (pre_wp S st))
           \<and> take 2 (flatten (future_wps_np fw (pre_wp S st))) = [0, 0]" by blast
  qed
  from 1 2 show ?thesis by (intro conjI)
qed

theorem lookahead_starts_at_zero_witness:
  "(\<exists>st1 new. game_loop straight_road zero_draws 201 0 0 [] = Some (Normal st1)
      \<and> outfile st1 = [] @ new \<and> new \<noteq> []
      \<and> (\<forall>row \<in> set new. take 2 (drop 23 row) = [0, 0]))
   \<and> tick_body straight_road zero_draws 1 fresh = Normal after_first_tick
   \<and> take 2 (drop 23 (last (outfile after_first_tick))) = [0, 0]
   \<and> (\<exists>fw. hd fw = pre_wp straight_road fresh
        \<and> take 2 (flatten (future_wps_np fw (pre_wp straight_road fresh))) = [0, 0])"
proof -
  from game_loop_complete [OF straight_road_frames straight_road_uninterrupted straight_road_lanes,
      of 201 zero_draws 0 0 "[]"]
  obtain st1 where g: "game_loop straight_road zero_draws 201 0 0 [] = Some (Normal st1)"
    and n: "length (outfile st1) = length ([]::real list list) + num_wp * (num_init_pt * 200)"
    by auto
  from g lookahead_starts_at_zero [of straight_road zero_draws 201 0 0 "[]" "Normal st1"]
  obtain new where a: "outfile st1 = [] @ new"
    and b: "\<forall>row \<in> set new. take 2 (drop 23 row) = [0, 0]"
    by auto
  from n a have c: "new \<noteq> []" by (auto simp: num_wp_def num_init_pt_def)
  from first_tick lookahead_starts_at_zero [where S = straight_road and R = zero_draws
      and hz = 1 and st = fresh and st' = after_first_tick]
  obtain fw where h: "hd fw = pre_wp straight_road fresh"
    and f: "take 2 (flatten (future_wps_np fw (pre_wp straight_road fresh))) = [0, 0]"
    by blast
  have t: "take 2 (drop 23 (last (outfile after_first_tick))) = [0, 0]"
    by (simp add: after_first_tick_def first_row_def)
  from g a b c first_tick h f t show ?thesis by blast
qed

end
